theory Spec2Isabelle
  imports Complex_Main "HOL-Library.Sublist"
begin

section \<open>The batch benchmarking driver of \<^verbatim>\<open>src/Benchmark.cpp\<close>\<close>

text \<open>
  The driver is modelled function by function. A \<^verbatim>\<open>std::string\<close> is a \<^typ>\<open>string\<close>
  (a list of bytes), \<^verbatim>\<open>size_t\<close> positions are natural numbers and the value
  \<^verbatim>\<open>std::string::npos\<close> is \<^term>\<open>None\<close>. What the program reads from outside (the
  file system, the OCR engine, the scoring subprocess, \<^verbatim>\<open>std::stod\<close>) is a parameter of
  the model.
\<close>

subsection \<open>The \<^verbatim>\<open>std::string\<close> operations the driver calls\<close>

text \<open>The first position of a list at which a predicate holds.\<close>

fun first_index :: "('a \<Rightarrow> bool) \<Rightarrow> 'a list \<Rightarrow> nat option" where
  "first_index P [] = None"
| "first_index P (x # xs) = (if P x then Some 0 else map_option Suc (first_index P xs))"

text \<open>
  \<^verbatim>\<open>s.find(c, pos)\<close>: the first position at or after
  \<open>pos\<close> holding the character.
\<close>

definition find_char :: "char \<Rightarrow> nat \<Rightarrow> string \<Rightarrow> nat option" where
  "find_char c pos s = map_option (\<lambda>i. pos + i) (first_index (\<lambda>x. x = c) (drop pos s))"

text \<open>
  \<^verbatim>\<open>s.find_first_of(cs, pos)\<close>: the first position at or after
  \<open>pos\<close> holding one of the characters.
\<close>

definition find_first_of :: "string \<Rightarrow> nat \<Rightarrow> string \<Rightarrow> nat option" where
  "find_first_of cs pos s = map_option (\<lambda>i. pos + i) (first_index (\<lambda>x. x \<in> set cs) (drop pos s))"

text \<open>
  \<^verbatim>\<open>s.find_last_of(c)\<close>: the last position holding the
  character.
\<close>

definition find_last_of :: "char \<Rightarrow> string \<Rightarrow> nat option" where
  "find_last_of c s =
     (case first_index (\<lambda>x. x = c) (rev s) of
        None \<Rightarrow> None
      | Some j \<Rightarrow> Some (length s - 1 - j))"

text \<open>
  \<^verbatim>\<open>s.find(pat)\<close> from position 0: the first position at which
  \<open>pat\<close> starts.
\<close>

fun find_str :: "string \<Rightarrow> string \<Rightarrow> nat option" where
  "find_str pat [] = (if pat = [] then Some 0 else None)"
| "find_str pat (x # xs) =
     (if prefix pat (x # xs) then Some 0 else map_option Suc (find_str pat xs))"

text \<open>
  \<^verbatim>\<open>s.substr(pos, n)\<close> and
  \<^verbatim>\<open>s.substr(pos)\<close>, for \<open>pos \<le> size\<close> (every
  call of the driver).
\<close>

definition substr :: "string \<Rightarrow> nat \<Rightarrow> nat \<Rightarrow> string" where
  "substr s pos n = take n (drop pos s)"

definition substr_from :: "string \<Rightarrow> nat \<Rightarrow> string" where
  "substr_from s pos = drop pos s"

text \<open>
  \<^verbatim>\<open>::tolower\<close> in the C locale: each of the letters A to Z
  becomes its lower-case letter.
\<close>

definition tolower_c :: "char \<Rightarrow> char" where
  "tolower_c c =
     (case map_of (zip ''ABCDEFGHIJKLMNOPQRSTUVWXYZ'' ''abcdefghijklmnopqrstuvwxyz'') c of
        None \<Rightarrow> c
      | Some l \<Rightarrow> l)"

subsection \<open>Image discovery\<close>

text \<open>
  \<^verbatim>\<open>isImageFile\<close>: the text from the last dot on, lower-cased,
  is on the whitelist.
\<close>

definition isImageFile :: "string \<Rightarrow> bool" where
  "isImageFile filepath =
     (case find_last_of (CHR ''.'') filepath of
        None \<Rightarrow> False
      | Some dot_pos \<Rightarrow>
          (let ext = map tolower_c (substr_from filepath dot_pos)
           in ext = ''.jpg'' \<or> ext = ''.jpeg'' \<or> ext = ''.png'' \<or> ext = ''.bmp''
              \<or> ext = ''.tiff''))"

text \<open>
  The file system as \<^verbatim>\<open>stat\<close>, \<^verbatim>\<open>opendir\<close> and \<^verbatim>\<open>readdir\<close> show it. A path names a
  regular file, a directory, something else (a device, a socket), or nothing that
  \<^verbatim>\<open>stat\<close> can reach. A directory that \<^verbatim>\<open>opendir\<close> cannot open has no entry list;
  one that opens lists its entries in \<^verbatim>\<open>readdir\<close> order, the names \<^verbatim>\<open>.\<close> and \<^verbatim>\<open>..\<close>
  among them. The tree is finite: a cycle of symbolic links is outside the model.
\<close>

datatype fsnode =
    RegularFile
  | Directory "(string \<times> fsnode) list option"
  | OtherNode
  | NoStat

text \<open>
  \<^verbatim>\<open>isDirectory\<close> and \<^verbatim>\<open>isFile\<close> on the
  node a path resolves to.
\<close>

fun isDirectory :: "fsnode \<Rightarrow> bool" where
  "isDirectory (Directory _) = True"
| "isDirectory _ = False"

fun isFile :: "fsnode \<Rightarrow> bool" where
  "isFile RegularFile = True"
| "isFile _ = False"

text \<open>
  \<^verbatim>\<open>collectImagesFromDirectory\<close>, called on a path that \<^verbatim>\<open>isDirectory\<close> accepted. The
  vector \<^verbatim>\<open>imagePaths\<close> is passed in and returned. \<open>collectEntries\<close> is the
  \<^verbatim>\<open>while ((entry = readdir(dir)) != nullptr)\<close> loop.
\<close>

fun collectImagesFromDirectory :: "string \<Rightarrow> fsnode \<Rightarrow> string list \<Rightarrow> string list"
  and collectEntries :: "string \<Rightarrow> (string \<times> fsnode) list \<Rightarrow> string list \<Rightarrow> string list"
where
  "collectImagesFromDirectory dirPath (Directory None) imagePaths = imagePaths"
| "collectImagesFromDirectory dirPath (Directory (Some entries)) imagePaths =
     collectEntries dirPath entries imagePaths"
| "collectImagesFromDirectory dirPath RegularFile imagePaths = imagePaths"
| "collectImagesFromDirectory dirPath OtherNode imagePaths = imagePaths"
| "collectImagesFromDirectory dirPath NoStat imagePaths = imagePaths"
| "collectEntries dirPath [] imagePaths = imagePaths"
| "collectEntries dirPath ((name, node) # rest) imagePaths =
     (if name = ''.'' \<or> name = ''..'' then collectEntries dirPath rest imagePaths
      else
        (let fullPath = dirPath @ ''/'' @ name in
         if isDirectory node
         then collectEntries dirPath rest (collectImagesFromDirectory fullPath node imagePaths)
         else if isFile node \<and> isImageFile fullPath
         then collectEntries dirPath rest (imagePaths @ [fullPath])
         else collectEntries dirPath rest imagePaths))"

text \<open>
  The lines the driver writes to the diagnostic stream
  \<^verbatim>\<open>std::cerr\<close>.
\<close>

datatype diagnostic =
    Usage
  | WarnInvalidPath string
  | ErrNoImages
  | ErrPopenFailed
  | ErrAccuracyExec string string
  | ErrNoPrefix string string
  | ErrProcessFailed string string
  | ErrNoStatistics

text \<open>
  \<^verbatim>\<open>collectImagePaths\<close> over \<^verbatim>\<open>argv[1..argc-1]\<close>; \<open>fs\<close> resolves an argument as
  \<^verbatim>\<open>stat\<close> does. The result is the vector and what went to \<^verbatim>\<open>std::cerr\<close>.
\<close>

fun collectArgs :: "(string \<Rightarrow> fsnode) \<Rightarrow> string list \<Rightarrow> string list \<times> diagnostic list
    \<Rightarrow> string list \<times> diagnostic list" where
  "collectArgs fs [] acc = acc"
| "collectArgs fs (path # rest) (imagePaths, cerr) =
     (if isDirectory (fs path)
      then collectArgs fs rest (collectImagesFromDirectory path (fs path) imagePaths, cerr)
      else if isFile (fs path) \<and> isImageFile path
      then collectArgs fs rest (imagePaths @ [path], cerr)
      else collectArgs fs rest (imagePaths, cerr @ [WarnInvalidPath path]))"

definition collectImagePaths :: "(string \<Rightarrow> fsnode) \<Rightarrow> string list \<Rightarrow> string list \<times> diagnostic list" where
  "collectImagePaths fs argv = collectArgs fs (tl argv) ([], [])"

subsection \<open>Counting the recognised characters\<close>

text \<open>
  The two bytes the scanner looks for that a string literal cannot hold directly: the
  double quote and the backslash.
\<close>

definition dquote :: char where
  "dquote = CHR 0x22"

definition backslash :: char where
  "backslash = CHR 0x5C"

text \<open>
  The \<^verbatim>\<open>for (char c : text)\<close> loop: every byte other than a backslash adds one to
  \<^verbatim>\<open>total_chars\<close> (an \<^verbatim>\<open>int\<close>; counts beyond its range are outside the model).
\<close>

fun count_text :: "string \<Rightarrow> int \<Rightarrow> int" where
  "count_text [] total_chars = total_chars"
| "count_text (c # cs) total_chars =
     count_text cs (if c \<noteq> backslash then total_chars + 1 else total_chars)"

lemma first_index_bound: "first_index P xs = Some i \<Longrightarrow> i < length xs"
proof (induction xs arbitrary: i)
  case Nil
  then show ?case by simp
next
  case (Cons x xs)
  then show ?case by (cases "P x"; cases "first_index P xs") auto
qed

lemma find_char_bounds: "find_char c pos s = Some p \<Longrightarrow> pos \<le> p \<and> p < length s"
proof -
  assume a: "find_char c pos s = Some p"
  then obtain i where i: "first_index (\<lambda>x. x = c) (drop pos s) = Some i" "p = pos + i"
    by (cases "first_index (\<lambda>x. x = c) (drop pos s)") (auto simp: find_char_def)
  from first_index_bound[OF i(1)] have "i < length s - pos" by simp
  with i(2) show ?thesis by simp
qed

text \<open>
  The \<^verbatim>\<open>while ((pos = rec_texts_content.find('"', pos)) != npos)\<close> loop: from \<open>pos\<close>,
  the next quote opens a text and the quote after it closes the text; the loop stops
  when either is missing.
\<close>

function count_quoted :: "string \<Rightarrow> nat \<Rightarrow> int \<Rightarrow> int" where
  "count_quoted rec_texts_content pos total_chars =
     (case find_char dquote pos rec_texts_content of
        None \<Rightarrow> total_chars
      | Some p \<Rightarrow>
          (case find_char dquote (p + 1) rec_texts_content of
             None \<Rightarrow> total_chars
           | Some end_quote \<Rightarrow>
               count_quoted rec_texts_content (end_quote + 1)
                 (count_text (substr rec_texts_content (p + 1) (end_quote - p - 1)) total_chars)))"
  by pat_completeness auto

termination
proof (relation "measure (\<lambda>(content, pos, total_chars). length content - pos)")
  show "wf (measure (\<lambda>(content, pos, total_chars). length content - pos))" by simp
next
  fix rec_texts_content :: string and pos :: nat and total_chars :: int and p end_quote
  assume a: "find_char dquote pos rec_texts_content = Some p"
    and b: "find_char dquote (p + 1) rec_texts_content = Some end_quote"
  from find_char_bounds[OF a] find_char_bounds[OF b]
  have "length rec_texts_content - (end_quote + 1) < length rec_texts_content - pos"
    by linarith
  then show "((rec_texts_content, end_quote + 1,
          count_text (substr rec_texts_content (p + 1) (end_quote - p - 1)) total_chars),
         (rec_texts_content, pos, total_chars))
        \<in> measure (\<lambda>(content, pos, total_chars). length content - pos)"
    by simp
qed

declare count_quoted.simps [simp del]

text \<open>
  The marker \<^verbatim>\<open>"rec_texts": [\<close>, with its two quotes.
\<close>

definition rec_texts_marker :: string where
  "rec_texts_marker = dquote # ''rec_texts'' @ dquote # '': [''"

text \<open>
  What the first run does with the text one output prints: find the marker, the
  bracket that opens the array and the first closing bracket after it, then count in
  between.
\<close>

definition count_output :: "string \<Rightarrow> int \<Rightarrow> int" where
  "count_output json_output total_chars =
     (case find_str rec_texts_marker json_output of
        None \<Rightarrow> total_chars
      | Some rec_texts_pos \<Rightarrow>
          (case find_char (CHR ''['') rec_texts_pos json_output of
             None \<Rightarrow> total_chars
           | Some array_start \<Rightarrow>
               (case find_char (CHR '']'') array_start json_output of
                  None \<Rightarrow> total_chars
                | Some array_end \<Rightarrow>
                    count_quoted
                      (substr json_output (array_start + 1) (array_end - array_start - 1))
                      0 total_chars)))"

subsection \<open>The engine, the scorer and the numbers\<close>

text \<open>
  A \<^verbatim>\<open>double\<close> is a real number: rounding and overflow are outside the model. A
  division whose divisor the code does not guard keeps the three results a zero
  divisor gives in IEEE arithmetic.
\<close>

datatype ieee = Fin real | PosInf | NegInf | NotANumber

definition ieee_div :: "real \<Rightarrow> real \<Rightarrow> ieee" where
  "ieee_div a b =
     (if b \<noteq> 0 then Fin (a / b)
      else if a > 0 then PosInf else if a < 0 then NegInf else NotANumber)"

text \<open>
  An exception derived from \<^verbatim>\<open>std::exception\<close>, as its
  \<^verbatim>\<open>what()\<close> text.
\<close>

type_synonym exn = string

text \<open>
  One \<^verbatim>\<open>BaseCVResult\<close> of the engine: the text its \<^verbatim>\<open>Print()\<close> writes, and the
  exception its \<^verbatim>\<open>SaveToImg\<close> or \<^verbatim>\<open>SaveToJson\<close> raises, if any. The pointers the
  engine returns are not null: the save loop dereferences each of them unguarded, and
  the test \<^verbatim>\<open>if (output)\<close> of the counting loop is then always passed.
\<close>

record cvresult =
  print_text :: string
  save_error :: "exn option"

text \<open>
  One call of \<^verbatim>\<open>infer.Predict\<close>: it raises, or returns its outputs, and the clock
  around it measures a number of nanoseconds.
\<close>

datatype predict_result = PredictThrows exn | PredictReturns "cvresult list" int

text \<open>
  One \<^verbatim>\<open>popen\<close> of the scoring command: it fails, or the command runs, writes its
  output and \<^verbatim>\<open>pclose\<close> returns a status.
\<close>

datatype popen_result = PopenFails | PopenRuns string int

text \<open>
  What the run reads from outside: the arguments, the file system, \<^verbatim>\<open>PWD\<close>, the
  engine (by image index, path and run), the scorer (by image index and command line)
  and \<^verbatim>\<open>std::stod\<close>. The constructor of the engine is taken to return, and the engine
  to raise nothing but exceptions derived from \<^verbatim>\<open>std::exception\<close>: anything else
  would end the process through \<^verbatim>\<open>std::terminate\<close>.
\<close>

record env =
  env_argv :: "string list"
  env_fs :: "string \<Rightarrow> fsnode"
  env_pwd :: "string option"
  env_predict :: "nat \<Rightarrow> string \<Rightarrow> nat \<Rightarrow> predict_result"
  env_popen :: "nat \<Rightarrow> string \<Rightarrow> popen_result"
  env_stod :: "string \<Rightarrow> exn + real"

text \<open>
  The machine-readable lines of \<^verbatim>\<open>std::cout\<close>: one \<^verbatim>\<open>PER_IMAGE_RESULT\<close> per record
  and the summary block with its \<^verbatim>\<open>TIMING_INFO\<close> lines. The numbers are kept as
  computed, before they are printed with two or four decimals; the progress and log
  lines are left out.
\<close>

record per_image_result =
  r_filename :: string
  r_inference_ms :: real
  r_fps :: real
  r_chars_per_second :: real
  r_total_chars :: int
  r_accuracy :: real

record summary =
  s_total_images :: nat
  s_successful :: int
  s_failed :: int
  s_success_rate :: real
  s_total_inference_time :: real
  s_avg_inference_time :: real
  s_min_time :: real
  s_max_time :: real
  s_avg_fps :: ieee
  s_total_fps :: ieee

datatype out_line = PER_IMAGE_RESULT per_image_result | SUMMARY summary

subsection \<open>One image\<close>

text \<open>The loop over \<^verbatim>\<open>final_outputs\<close> in the first run.\<close>

fun count_outputs :: "cvresult list \<Rightarrow> int \<Rightarrow> int" where
  "count_outputs [] total_chars = total_chars"
| "count_outputs (output # rest) total_chars =
     count_outputs rest (count_output (print_text output) total_chars)"

text \<open>
  The \<^verbatim>\<open>for (int run = 0; run < 3; run++)\<close> loop. An exception of \<^verbatim>\<open>Predict\<close> leaves
  it at once (\<^term>\<open>Inl\<close>); otherwise the run's time is appended, and the first run
  alone sets \<^verbatim>\<open>final_outputs\<close> and counts the characters.
\<close>

function run_loop :: "(nat \<Rightarrow> predict_result) \<Rightarrow> nat \<Rightarrow> real list \<Rightarrow> cvresult list \<Rightarrow> int
    \<Rightarrow> exn + (real list \<times> cvresult list \<times> int)" where
  "run_loop predict run run_times final_outputs total_chars =
     (if run < 3 then
        (case predict run of
           PredictThrows e \<Rightarrow> Inl e
         | PredictReturns outputs inference_duration_ns \<Rightarrow>
             (let inference_ms = real_of_int inference_duration_ns / 1000000 in
              if run = 0
              then run_loop predict (run + 1) (run_times @ [inference_ms]) outputs
                     (count_outputs outputs total_chars)
              else run_loop predict (run + 1) (run_times @ [inference_ms]) final_outputs
                     total_chars))
      else Inr (run_times, final_outputs, total_chars))"
  by pat_completeness auto

termination
  by (relation "measure (\<lambda>(predict, run, run_times, final_outputs, total_chars). 3 - run)") auto

declare run_loop.simps [simp del]

text \<open>
  \<^verbatim>\<open>for (double time : run_times) avg_inference_ms += time\<close>,
  then the division by the size.
\<close>

fun add_times :: "real list \<Rightarrow> real \<Rightarrow> real" where
  "add_times [] acc = acc"
| "add_times (time # rest) acc = add_times rest (acc + time)"

definition average_ms :: "real list \<Rightarrow> real" where
  "average_ms run_times = add_times run_times 0 / real (length run_times)"

definition image_fps :: "real \<Rightarrow> real" where
  "image_fps avg_inference_ms = (if avg_inference_ms > 0 then 1000 / avg_inference_ms else 0)"

definition image_chars_per_second :: "int \<Rightarrow> real \<Rightarrow> real" where
  "image_chars_per_second n avg_inference_ms =
     (if avg_inference_ms > 0 then (real_of_int n * 1000) / avg_inference_ms else 0)"

text \<open>
  The save loop: the first output whose saving raises ends it with that exception.
\<close>

fun save_outputs :: "cvresult list \<Rightarrow> exn option" where
  "save_outputs [] = None"
| "save_outputs (output # rest) =
     (case save_error output of Some e \<Rightarrow> Some e | None \<Rightarrow> save_outputs rest)"

definition get_root_path :: "string option \<Rightarrow> string" where
  "get_root_path root_path_env = (case root_path_env of Some r \<Rightarrow> r | None \<Rightarrow> ''.'')"

text \<open>
  The file name: \<^verbatim>\<open>image_path\<close> with everything up to the last
  slash erased.
\<close>

definition image_filename :: "string \<Rightarrow> string" where
  "image_filename image_path =
     (case find_last_of (CHR ''/'') image_path of
        None \<Rightarrow> image_path
      | Some last_slash_pos \<Rightarrow> drop (last_slash_pos + 1) image_path)"

definition scoring_command :: "string \<Rightarrow> string \<Rightarrow> string" where
  "scoring_command rootPath file =
     ''python '' @ rootPath @ ''/scripts/calculate_acc.py''
     @ '' --ground_truth '' @ [dquote] @ (rootPath @ ''/images/labels.json'') @ [dquote]
     @ '' --output_dir '' @ [dquote] @ rootPath @ ''/output'' @ [dquote]
     @ '' --image_name '' @ [dquote] @ file @ [dquote]"

text \<open>
  \<^verbatim>\<open>ExecuteCommand\<close>: whether the command ran and exited with status 0, the text
  appended to \<^verbatim>\<open>*result\<close>, and what went to \<^verbatim>\<open>std::cerr\<close>.
\<close>

definition ExecuteCommand :: "popen_result \<Rightarrow> string \<Rightarrow> bool \<times> string \<times> diagnostic list" where
  "ExecuteCommand pipe result =
     (case pipe of
        PopenFails \<Rightarrow> (False, result, [ErrPopenFailed])
      | PopenRuns text exit_code \<Rightarrow> (exit_code = 0, result @ text, []))"

text \<open>
  \<^verbatim>\<open>::isspace\<close> in the C locale: space, tab, line feed,
  vertical tab, form feed, carriage return.
\<close>

definition isspace_c :: "char \<Rightarrow> bool" where
  "isspace_c c = (c \<in> set [CHR 0x20, CHR 0x09, CHR 0x0A, CHR 0x0B, CHR 0x0C, CHR 0x0D])"

definition accuracy_key :: string where
  "accuracy_key = dquote # ''character_accuracy'' @ dquote # '':''"

text \<open>
  The accuracy in the text after the \<^verbatim>\<open>SINGLE_ACC: \<close> marker: 0.0 unless the key and
  the end of its value are found, and then what \<^verbatim>\<open>std::stod\<close> makes of the value
  without its white space, or the exception it raises.
\<close>

definition parse_accuracy :: "(string \<Rightarrow> exn + real) \<Rightarrow> string \<Rightarrow> exn + real" where
  "parse_accuracy stod json_output =
     (case find_str accuracy_key json_output of
        None \<Rightarrow> Inr 0
      | Some acc_pos \<Rightarrow>
          (let value_start =
                 (case find_char (CHR '':'') acc_pos json_output of
                    None \<Rightarrow> 0
                  | Some colon \<Rightarrow> colon + 1)
           in case find_first_of '',}'' value_start json_output of
                None \<Rightarrow> Inr 0
              | Some value_end \<Rightarrow>
                  stod (filter (\<lambda>c. \<not> isspace_c c)
                          (substr json_output value_start (value_end - value_start)))))"

text \<open>
  The state the loop over the images carries: the three variables declared before it
  and the two streams.
\<close>

record loop_state =
  inference_times :: "real list"
  successful_count :: int
  failed_count :: int
  cout :: "out_line list"
  cerr :: "diagnostic list"

text \<open>The \<^verbatim>\<open>catch (const std::exception& e)\<close> block.\<close>

definition catch_block :: "string \<Rightarrow> exn \<Rightarrow> loop_state \<Rightarrow> loop_state" where
  "catch_block image_path e st =
     st\<lparr>failed_count := failed_count st + 1,
        cerr := cerr st @ [ErrProcessFailed image_path e]\<rparr>"

definition prefix_marker :: string where
  "prefix_marker = ''SINGLE_ACC: ''"

text \<open>
  The body of the loop over the images, for the image at index \<open>i\<close>. The branch
  where \<^verbatim>\<open>ExecuteCommand\<close> returns false ends in \<^verbatim>\<open>continue\<close>: it returns without
  reaching \<^verbatim>\<open>successful_count++\<close>.
\<close>

definition process_image :: "env \<Rightarrow> nat \<Rightarrow> string \<Rightarrow> loop_state \<Rightarrow> loop_state" where
  "process_image env i image_path st =
     (case run_loop (env_predict env i image_path) 0 [] [] 0 of
        Inl e \<Rightarrow> catch_block image_path e st
      | Inr (run_times, final_outputs, n_chars) \<Rightarrow>
          (let avg_inference_ms = average_ms run_times;
               avg_fps = image_fps avg_inference_ms;
               cps = image_chars_per_second n_chars avg_inference_ms;
               st1 = st\<lparr>inference_times := inference_times st @ [avg_inference_ms]\<rparr>
           in case save_outputs final_outputs of
                Some e \<Rightarrow> catch_block image_path e st1
              | None \<Rightarrow>
                  (let rootPath = get_root_path (env_pwd env);
                       file = image_filename image_path;
                       command = scoring_command rootPath file
                   in case ExecuteCommand (env_popen env i command) [] of
                        (ok, result_str, popen_cerr) \<Rightarrow>
                          if \<not> ok
                          then st1\<lparr>cerr := cerr st1 @ popen_cerr @ [ErrAccuracyExec file result_str],
                                   cout := cout st1 @
                                     [PER_IMAGE_RESULT
                                        \<lparr>r_filename = file, r_inference_ms = avg_inference_ms,
                                         r_fps = avg_fps, r_chars_per_second = cps,
                                         r_total_chars = n_chars, r_accuracy = 0\<rparr>]\<rparr>
                          else
                            (case find_str prefix_marker result_str of
                               Some json_start \<Rightarrow>
                                 (case parse_accuracy (env_stod env)
                                         (substr_from result_str (json_start + length prefix_marker)) of
                                    Inl e \<Rightarrow> catch_block image_path e (st1\<lparr>cerr := cerr st1 @ popen_cerr\<rparr>)
                                  | Inr acc \<Rightarrow>
                                      st1\<lparr>cerr := cerr st1 @ popen_cerr,
                                          cout := cout st1 @
                                            [PER_IMAGE_RESULT
                                               \<lparr>r_filename = file, r_inference_ms = avg_inference_ms,
                                                r_fps = avg_fps, r_chars_per_second = cps,
                                                r_total_chars = n_chars, r_accuracy = acc\<rparr>],
                                          successful_count := successful_count st1 + 1\<rparr>)
                             | None \<Rightarrow>
                                 st1\<lparr>cerr := cerr st1 @ popen_cerr @ [ErrNoPrefix file result_str],
                                     successful_count := successful_count st1 + 1\<rparr>))))"

text \<open>
  \<^verbatim>\<open>for (size_t i = 0; i < imagePaths.size(); i++)\<close>, from
  index \<open>i\<close> on.
\<close>

fun batch_loop :: "env \<Rightarrow> nat \<Rightarrow> string list \<Rightarrow> loop_state \<Rightarrow> loop_state" where
  "batch_loop env i [] st = st"
| "batch_loop env i (image_path # rest) st =
     batch_loop env (Suc i) rest (process_image env i image_path st)"

subsection \<open>The summary and the exit code\<close>

text \<open>
  The loop over \<^verbatim>\<open>inference_times\<close> that adds up the total and tracks the minimum and
  the maximum, both started at the first element.
\<close>

fun stats_loop :: "real list \<Rightarrow> real \<times> real \<times> real \<Rightarrow> real \<times> real \<times> real" where
  "stats_loop [] acc = acc"
| "stats_loop (time # rest) (total_inference_time, min_time, max_time) =
     stats_loop rest (total_inference_time + time, min min_time time, max max_time time)"

text \<open>
  The summary block, printed when \<^verbatim>\<open>inference_times\<close> is not empty. The two
  divisions by a count divide by at least 1; the two frame rates divide unguarded.
\<close>

definition make_summary :: "nat \<Rightarrow> loop_state \<Rightarrow> summary" where
  "make_summary n_images st =
     (case stats_loop (inference_times st) (0, hd (inference_times st), hd (inference_times st)) of
        (total_inference_time, min_time, max_time) \<Rightarrow>
          (let avg_inference_time = total_inference_time / real (length (inference_times st)) in
           \<lparr>s_total_images = n_images,
            s_successful = successful_count st,
            s_failed = failed_count st,
            s_success_rate = 100 * real_of_int (successful_count st) / real n_images,
            s_total_inference_time = total_inference_time,
            s_avg_inference_time = avg_inference_time,
            s_min_time = min_time,
            s_max_time = max_time,
            s_avg_fps = ieee_div 1000 avg_inference_time,
            s_total_fps = ieee_div (real_of_int (successful_count st) * 1000) total_inference_time\<rparr>))"

text \<open>
  What the process leaves: the code \<^verbatim>\<open>main\<close> returns and the
  two streams.
\<close>

record run_result =
  exit_code :: int
  stdout_of :: "out_line list"
  stderr_of :: "diagnostic list"

definition initial_state :: "diagnostic list \<Rightarrow> loop_state" where
  "initial_state warnings =
     \<lparr>inference_times = [], successful_count = 0, failed_count = 0, cout = [], cerr = warnings\<rparr>"

definition main :: "env \<Rightarrow> run_result" where
  "main env =
     (if length (env_argv env) < 2
      then \<lparr>exit_code = 1, stdout_of = [], stderr_of = [Usage]\<rparr>
      else
        (case collectImagePaths (env_fs env) (env_argv env) of
           (imagePaths, warnings) \<Rightarrow>
             if imagePaths = []
             then \<lparr>exit_code = 1, stdout_of = [], stderr_of = warnings @ [ErrNoImages]\<rparr>
             else
               (let st = batch_loop env 0 imagePaths (initial_state warnings) in
                \<lparr>exit_code = (if failed_count st > 0 then 1 else 0),
                 stdout_of =
                   (if inference_times st \<noteq> []
                    then cout st @ [SUMMARY (make_summary (length imagePaths) st)]
                    else cout st),
                 stderr_of =
                   (if inference_times st \<noteq> [] then cerr st
                    else cerr st @ [ErrNoStatistics])\<rparr>)))"

section \<open>The properties of the driver\<close>

subsection \<open>Notions for discovery\<close>

text \<open>The extensions of the whitelist, without their dot.\<close>

definition whitelist :: "string list" where
  "whitelist = [''jpg'', ''jpeg'', ''png'', ''bmp'', ''tiff'']"

text \<open>
  The image files below a directory, said without the traversal: a regular file among
  the entries of a directory that opens, other than \<^verbatim>\<open>.\<close> and \<^verbatim>\<open>..\<close>, whose full
  path \<^verbatim>\<open>isImageFile\<close> accepts, or such a file below a subdirectory among the entries.
\<close>

inductive image_in :: "string \<Rightarrow> fsnode \<Rightarrow> string \<Rightarrow> bool" where
  image_here:
    "(name, RegularFile) \<in> set entries \<Longrightarrow> name \<noteq> ''.'' \<Longrightarrow> name \<noteq> ''..'' \<Longrightarrow>
     isImageFile (dirPath @ ''/'' @ name) \<Longrightarrow>
     image_in dirPath (Directory (Some entries)) (dirPath @ ''/'' @ name)"
| image_below:
    "(name, Directory sub) \<in> set entries \<Longrightarrow> name \<noteq> ''.'' \<Longrightarrow> name \<noteq> ''..'' \<Longrightarrow>
     image_in (dirPath @ ''/'' @ name) (Directory sub) p \<Longrightarrow>
     image_in dirPath (Directory (Some entries)) p"

text \<open>
  An argument that is neither a directory nor a regular file with an image extension.
\<close>

definition invalid_argument :: "(string \<Rightarrow> fsnode) \<Rightarrow> string \<Rightarrow> bool" where
  "invalid_argument fs a = (\<not> isDirectory (fs a) \<and> \<not> (isFile (fs a) \<and> isImageFile a))"

text \<open>
  A small file system: a directory \<^verbatim>\<open>imgs\<close> with an image, a text file, a
  subdirectory and a subdirectory that does not open, and two files beside it.
\<close>

definition sample_fs :: "string \<Rightarrow> fsnode" where
  "sample_fs path =
     (if path = ''imgs''
      then Directory (Some [(''.'', Directory None), (''..'', Directory None),
             (''a.PNG'', RegularFile), (''notes.txt'', RegularFile),
             (''sub'', Directory (Some [(''b.jpeg'', RegularFile), (''c.tiff'', OtherNode)])),
             (''locked'', Directory None)])
      else if path = ''x.bmp'' then RegularFile
      else if path = ''readme.md'' then RegularFile
      else NoStat)"

definition sample_argv :: "string list" where
  "sample_argv = [''benchmark'', ''imgs'', ''x.bmp'', ''readme.md'', ''missing.png'']"

subsection \<open>Notions for the character count\<close>

text \<open>
  The content of a \<^verbatim>\<open>rec_texts\<close> array as it is printed: each text between two double
  quotes, after a separator.
\<close>

fun serialized_texts :: "(string \<times> string) list \<Rightarrow> string" where
  "serialized_texts [] = []"
| "serialized_texts ((sep, t) # rest) = sep @ dquote # t @ dquote # serialized_texts rest"

text \<open>The bytes of a text other than the backslash.\<close>

definition unescaped_bytes :: "string \<Rightarrow> int" where
  "unescaped_bytes t = int (length (filter (\<lambda>c. c \<noteq> backslash) t))"

text \<open>
  The count in the words of the specification, read in two ways. In the first a
  character preceded by a backslash escape counts as zero width, and the backslash
  counts as any character does. In the second the whole escape sequence, the
  backslash and the character it escapes, is excluded.
\<close>

fun spec_transcript_width :: "string \<Rightarrow> int" where
  "spec_transcript_width [] = 0"
| "spec_transcript_width [c] = 1"
| "spec_transcript_width (c # d # rest) =
     (if c = backslash then 1 + spec_transcript_width rest
      else 1 + spec_transcript_width (d # rest))"

fun spec_sequence_width :: "string \<Rightarrow> int" where
  "spec_sequence_width [] = 0"
| "spec_sequence_width [c] = (if c = backslash then 0 else 1)"
| "spec_sequence_width (c # d # rest) =
     (if c = backslash then spec_sequence_width rest
      else 1 + spec_sequence_width (d # rest))"

text \<open>
  A text with two escape sequences, a line feed and a backslash, as it is serialized:
  \<^verbatim>\<open>a\nb\\c\<close>, seven bytes; and the printed results that hold it.
\<close>

definition escape_text :: string where
  "escape_text = ''a'' @ backslash # ''nb'' @ backslash # backslash # ''c''"

definition escape_json :: string where
  "escape_json = ''{'' @ rec_texts_marker @ dquote # escape_text @ dquote # '']}''"

definition two_texts_json :: string where
  "two_texts_json =
     ''{'' @ rec_texts_marker @ serialized_texts [([], ''ab''), ('', '', escape_text)] @ [] @ CHR '']'' # ''}''"

subsection \<open>Notions for the loop over the images\<close>

text \<open>
  The repetition loop of the image at index \<open>i\<close>, from its start.
\<close>

definition runs_of :: "env \<Rightarrow> nat \<Rightarrow> string \<Rightarrow> exn + (real list \<times> cvresult list \<times> int)" where
  "runs_of env i image_path = run_loop (env_predict env i image_path) 0 [] [] 0"

text \<open>
  The call of \<^verbatim>\<open>ExecuteCommand\<close> for the image at index
  \<open>i\<close>.
\<close>

definition scorer_result :: "env \<Rightarrow> nat \<Rightarrow> string \<Rightarrow> bool \<times> string \<times> diagnostic list" where
  "scorer_result env i image_path =
     ExecuteCommand
       (env_popen env i (scoring_command (get_root_path (env_pwd env)) (image_filename image_path))) []"

text \<open>
  The six ways the body of the loop ends for one image: \<^verbatim>\<open>Predict\<close> raised in the
  repetition loop; saving an output raised; \<^verbatim>\<open>ExecuteCommand\<close> returned false (the
  \<^verbatim>\<open>continue\<close>); the scorer's output has no \<^verbatim>\<open>SINGLE_ACC: \<close> marker; \<^verbatim>\<open>std::stod\<close>
  raised; or the accuracy was read.
\<close>

datatype outcome =
    InferenceRaised exn
  | SavingRaised exn
  | ScoringFailed
  | MarkerMissing
  | AccuracyRaised exn
  | Scored real

definition image_outcome :: "env \<Rightarrow> nat \<Rightarrow> string \<Rightarrow> outcome" where
  "image_outcome env i image_path =
     (case runs_of env i image_path of
        Inl e \<Rightarrow> InferenceRaised e
      | Inr (run_times, final_outputs, n_chars) \<Rightarrow>
          (case save_outputs final_outputs of
             Some e \<Rightarrow> SavingRaised e
           | None \<Rightarrow>
               (case scorer_result env i image_path of
                  (ok, result_str, popen_cerr) \<Rightarrow>
                    if \<not> ok then ScoringFailed
                    else
                      (case find_str prefix_marker result_str of
                         None \<Rightarrow> MarkerMissing
                       | Some json_start \<Rightarrow>
                           (case parse_accuracy (env_stod env)
                                   (substr_from result_str (json_start + length prefix_marker)) of
                              Inl e \<Rightarrow> AccuracyRaised e
                            | Inr acc \<Rightarrow> Scored acc)))))"

text \<open>
  The average latency and the character count of an image whose repetition loop
  completed, and the record the driver prints for it with a given accuracy.
\<close>

definition image_latency :: "env \<Rightarrow> nat \<Rightarrow> string \<Rightarrow> real" where
  "image_latency env i image_path =
     (case runs_of env i image_path of
        Inl e \<Rightarrow> 0
      | Inr (run_times, final_outputs, n_chars) \<Rightarrow> average_ms run_times)"

definition image_chars :: "env \<Rightarrow> nat \<Rightarrow> string \<Rightarrow> int" where
  "image_chars env i image_path =
     (case runs_of env i image_path of
        Inl e \<Rightarrow> 0
      | Inr (run_times, final_outputs, n_chars) \<Rightarrow> n_chars)"

definition image_record :: "env \<Rightarrow> nat \<Rightarrow> string \<Rightarrow> real \<Rightarrow> per_image_result" where
  "image_record env i image_path acc =
     \<lparr>r_filename = image_filename image_path,
      r_inference_ms = image_latency env i image_path,
      r_fps = image_fps (image_latency env i image_path),
      r_chars_per_second =
        image_chars_per_second (image_chars env i image_path) (image_latency env i image_path),
      r_total_chars = image_chars env i image_path,
      r_accuracy = acc\<rparr>"

text \<open>
  Which outcomes reach \<^verbatim>\<open>failed_count++\<close>, which reach \<^verbatim>\<open>successful_count++\<close>, which
  come after the repetition loop, and the lines an image adds to \<^verbatim>\<open>std::cout\<close>.
\<close>

fun counted_failed :: "outcome \<Rightarrow> bool" where
  "counted_failed (InferenceRaised e) = True"
| "counted_failed (SavingRaised e) = True"
| "counted_failed (AccuracyRaised e) = True"
| "counted_failed ScoringFailed = False"
| "counted_failed MarkerMissing = False"
| "counted_failed (Scored acc) = False"

fun counted_successful :: "outcome \<Rightarrow> bool" where
  "counted_successful MarkerMissing = True"
| "counted_successful (Scored acc) = True"
| "counted_successful (InferenceRaised e) = False"
| "counted_successful (SavingRaised e) = False"
| "counted_successful (AccuracyRaised e) = False"
| "counted_successful ScoringFailed = False"

fun runs_completed :: "outcome \<Rightarrow> bool" where
  "runs_completed (InferenceRaised e) = False"
| "runs_completed (SavingRaised e) = True"
| "runs_completed (AccuracyRaised e) = True"
| "runs_completed ScoringFailed = True"
| "runs_completed MarkerMissing = True"
| "runs_completed (Scored acc) = True"

definition image_lines :: "env \<Rightarrow> nat \<Rightarrow> string \<Rightarrow> out_line list" where
  "image_lines env i image_path =
     (case image_outcome env i image_path of
        ScoringFailed \<Rightarrow> [PER_IMAGE_RESULT (image_record env i image_path 0)]
      | Scored acc \<Rightarrow> [PER_IMAGE_RESULT (image_record env i image_path acc)]
      | InferenceRaised e \<Rightarrow> []
      | SavingRaised e \<Rightarrow> []
      | MarkerMissing \<Rightarrow> []
      | AccuracyRaised e \<Rightarrow> [])"

text \<open>
  The average latencies of the images whose repetition loop completed, in discovery
  order.
\<close>

definition completed_latencies :: "env \<Rightarrow> string list \<Rightarrow> real list" where
  "completed_latencies env imagePaths =
     map (\<lambda>(j, q). image_latency env j q)
       (filter (\<lambda>(j, q). runs_completed (image_outcome env j q)) (enumerate 0 imagePaths))"

text \<open>
  The lines the images add to \<^verbatim>\<open>std::cout\<close>, in discovery
  order.
\<close>

definition batch_lines :: "env \<Rightarrow> string list \<Rightarrow> out_line list" where
  "batch_lines env imagePaths =
     concat (map (\<lambda>(j, q). image_lines env j q) (enumerate 0 imagePaths))"

text \<open>The number of images whose outcome satisfies a predicate.\<close>

definition count_where :: "(outcome \<Rightarrow> bool) \<Rightarrow> env \<Rightarrow> string list \<Rightarrow> int" where
  "count_where P env imagePaths =
     int (length (filter (\<lambda>(j, q). P (image_outcome env j q)) (enumerate 0 imagePaths)))"

subsection \<open>Sample runs\<close>

text \<open>
  One output of the engine that prints the two texts above (6 counted characters) and
  saves without raising.
\<close>

definition sample_output :: cvresult where
  "sample_output = \<lparr>print_text = two_texts_json, save_error = None\<rparr>"

text \<open>
  What a scorer prints for an accuracy of one half: a line of log, then the marker and
  the payload.
\<close>

definition sample_payload :: string where
  "sample_payload = ''{'' @ accuracy_key @ '' 0.5}''"

definition sample_score :: string where
  "sample_score = ''scored'' @ [CHR 0x0A] @ prefix_marker @ sample_payload"

text \<open>
  \<^verbatim>\<open>std::stod\<close> on the one number the samples hold; it raises
  on anything else.
\<close>

definition sample_stod :: "string \<Rightarrow> exn + real" where
  "sample_stod s = (if s = ''0.5'' then Inr (1 / 2) else Inl ''stod'')"

text \<open>A run over image files that all exist, with a given engine and scorer.\<close>

definition sample_env :: "string list \<Rightarrow> (nat \<Rightarrow> nat \<Rightarrow> predict_result) \<Rightarrow> (nat \<Rightarrow> popen_result) \<Rightarrow> env" where
  "sample_env args predict popen =
     \<lparr>env_argv = ''benchmark'' # args,
      env_fs = (\<lambda>path. RegularFile),
      env_pwd = Some ''/w'',
      env_predict = (\<lambda>i image_path run. predict i run),
      env_popen = (\<lambda>i command. popen i),
      env_stod = sample_stod\<rparr>"

text \<open>Five images; the engine raises in the second run of the third image.\<close>

definition isolation_env :: env where
  "isolation_env =
     sample_env [''d/1.png'', ''d/2.png'', ''d/3.png'', ''d/4.png'', ''d/5.png'']
       (\<lambda>i run. if i = 2 \<and> run = 1 then PredictThrows ''unreadable''
                 else PredictReturns [sample_output] 500000000)
       (\<lambda>i. PopenRuns sample_score 0)"

text \<open>The record of an image with three runs of 500 ms and 6 characters.\<close>

definition sample_record :: "string \<Rightarrow> real \<Rightarrow> per_image_result" where
  "sample_record file acc =
     \<lparr>r_filename = file, r_inference_ms = 500, r_fps = 2, r_chars_per_second = 12,
      r_total_chars = 6, r_accuracy = acc\<rparr>"

text \<open>Two images; the scorer of the first exits with a nonzero status.\<close>

definition scoring_failed_env :: env where
  "scoring_failed_env =
     sample_env [''d/1.png'', ''d/2.png'']
       (\<lambda>i run. PredictReturns [sample_output] 500000000)
       (\<lambda>i. if i = 0 then PopenRuns ''Traceback'' 256 else PopenRuns sample_score 0)"

text \<open>One image; the scorer exits with status 0 and prints no marker.\<close>

definition marker_missing_env :: env where
  "marker_missing_env =
     sample_env [''d/1.png'']
       (\<lambda>i run. PredictReturns [sample_output] 500000000)
       (\<lambda>i. PopenRuns ''no labels'' 0)"

text \<open>
  Three images; run times of 90, 100 and 110 ms times the position of the image, and
  outputs in the first run only.
\<close>

definition varied_env :: env where
  "varied_env =
     sample_env [''d/1.png'', ''d/2.png'', ''d/3.png'']
       (\<lambda>i run. PredictReturns (if run = 0 then [sample_output] else [])
                   ((int i + 1) * (if run = 0 then 90000000 else if run = 1 then 100000000 else 110000000)))
       (\<lambda>i. PopenRuns sample_score 0)"



text \<open>An output of the engine that prints the same two texts and whose saving raises.\<close>

definition failing_output :: cvresult where
  "failing_output = \<lparr>print_text = two_texts_json, save_error = Some ''cannot write''\<rparr>"

text \<open>
  Two images; the runs of the first take 100 ms each and it is scored, the runs of the
  second take 900 ms each and saving its output raises.
\<close>

definition save_failure_env :: env where
  "save_failure_env =
     sample_env [''d/1.png'', ''d/2.png'']
       (\<lambda>i run. if i = 0 then PredictReturns [sample_output] 100000000
                 else PredictReturns [failing_output] 900000000)
       (\<lambda>i. PopenRuns sample_score 0)"

text \<open>
  The list of the statistics in the words of the specification: the average latencies
  of the successful images, those the run counts in \<^verbatim>\<open>successful_count\<close>.
\<close>

definition successful_latencies :: "env \<Rightarrow> string list \<Rightarrow> real list" where
  "successful_latencies env imagePaths =
     map (\<lambda>(j, q). image_latency env j q)
       (filter (\<lambda>(j, q). counted_successful (image_outcome env j q)) (enumerate 0 imagePaths))"

text \<open>The record of the image with three runs of 100 ms and 6 characters.\<close>

definition fast_record :: per_image_result where
  "fast_record =
     \<lparr>r_filename = ''1.png'', r_inference_ms = 100, r_fps = 10, r_chars_per_second = 60,
      r_total_chars = 6, r_accuracy = 1 / 2\<rparr>"

text \<open>A run without arguments, and a run whose one argument is not an image.\<close>

definition no_arguments_env :: env where
  "no_arguments_env = sample_env [] (\<lambda>i run. PredictThrows ''unused'') (\<lambda>i. PopenFails)"

definition no_images_env :: env where
  "no_images_env = sample_env [''notes.txt''] (\<lambda>i run. PredictThrows ''unused'') (\<lambda>i. PopenFails)"

subsection \<open>Discovery collects the whitelisted files\<close>

lemma first_index_None: "first_index P xs = None \<longleftrightarrow> (\<forall>x\<in>set xs. \<not> P x)"
  by (induction xs) auto

lemma first_index_SomeI:
  "P z \<Longrightarrow> \<forall>y\<in>set ys. \<not> P y \<Longrightarrow> first_index P (ys @ z # zs) = Some (length ys)"
  by (induction ys) auto

lemma first_index_SomeD:
  "first_index P xs = Some i \<Longrightarrow>
     \<exists>ys z zs. xs = ys @ z # zs \<and> length ys = i \<and> P z \<and> (\<forall>y\<in>set ys. \<not> P y)"
proof (induction xs arbitrary: i)
  case Nil
  then show ?case by simp
next
  case (Cons x xs)
  show ?case
  proof (cases "P x")
    case True
    with Cons.prems have "i = 0" by simp
    with True have "x # xs = [] @ x # xs \<and> length ([]::'a list) = i \<and> P x \<and> (\<forall>y\<in>set []. \<not> P y)"
      by simp
    then show ?thesis by blast
  next
    case False
    with Cons.prems obtain j where j: "first_index P xs = Some j" "i = Suc j"
      by (cases "first_index P xs") auto
    from Cons.IH[OF j(1)] obtain ys z zs
      where h: "xs = ys @ z # zs" "length ys = j" "P z" "\<forall>y\<in>set ys. \<not> P y" by blast
    with False j have "x # xs = (x # ys) @ z # zs \<and> length (x # ys) = i \<and> P z \<and> (\<forall>y\<in>set (x # ys). \<not> P y)"
      by simp
    then show ?thesis by blast
  qed
qed

lemma find_last_of_SomeI:
  assumes "c \<notin> set zs"
  shows "find_last_of c (ys @ c # zs) = Some (length ys)"
proof -
  have "first_index (\<lambda>x. x = c) (rev zs @ c # rev ys) = Some (length (rev zs))"
    using assms by (intro first_index_SomeI) auto
  then show ?thesis by (simp add: find_last_of_def)
qed

lemma find_last_of_SomeD:
  assumes "find_last_of c s = Some i"
  shows "\<exists>ys zs. s = ys @ c # zs \<and> c \<notin> set zs \<and> i = length ys"
proof -
  from assms obtain j where j: "first_index (\<lambda>x. x = c) (rev s) = Some j" "i = length s - 1 - j"
    by (cases "first_index (\<lambda>x. x = c) (rev s)") (auto simp: find_last_of_def)
  from first_index_SomeD[OF j(1)] obtain ys z zs
    where h: "rev s = ys @ z # zs" "length ys = j" "z = c" "\<forall>y\<in>set ys. y \<noteq> c" by blast
  have "rev (rev s) = rev (ys @ z # zs)" using h(1) by simp
  then have s: "s = rev zs @ c # rev ys" using h(3) by simp
  have "i = length (rev zs)" using j(2) h(2) s by simp
  moreover have "c \<notin> set (rev ys)" using h(4) by auto
  ultimately show ?thesis using s by blast
qed

lemma tolower_c_dot: "tolower_c c = CHR ''.'' \<longleftrightarrow> c = CHR ''.''"
  by (simp add: tolower_c_def)

lemma map_tolower_dot: "CHR ''.'' \<in> set (map tolower_c e) \<longleftrightarrow> CHR ''.'' \<in> set e"
proof -
  have "CHR ''.'' \<in> set (map tolower_c e) \<longleftrightarrow> (\<exists>x\<in>set e. tolower_c x = CHR ''.'')"
    by (simp only: set_map image_iff) metis
  then show ?thesis by (simp add: tolower_c_dot)
qed

lemma whitelist_no_dot: "w \<in> set whitelist \<Longrightarrow> CHR ''.'' \<notin> set w"
  by (auto simp: whitelist_def)

lemma isImageFile_iff:
  "isImageFile p \<longleftrightarrow> (\<exists>stem e. p = stem @ CHR ''.'' # e \<and> map tolower_c e \<in> set whitelist)"
proof
  assume a: "isImageFile p"
  then obtain i where i: "find_last_of (CHR ''.'') p = Some i"
    by (cases "find_last_of (CHR ''.'') p") (auto simp: isImageFile_def)
  from find_last_of_SomeD[OF i] obtain ys zs
    where h: "p = ys @ CHR ''.'' # zs" "CHR ''.'' \<notin> set zs" "i = length ys" by blast
  have "substr_from p i = CHR ''.'' # zs" using h by (simp add: substr_from_def)
  with a i have "map tolower_c zs \<in> set whitelist"
    by (auto simp: isImageFile_def whitelist_def tolower_c_dot)
  with h show "\<exists>stem e. p = stem @ CHR ''.'' # e \<and> map tolower_c e \<in> set whitelist" by blast
next
  assume "\<exists>stem e. p = stem @ CHR ''.'' # e \<and> map tolower_c e \<in> set whitelist"
  then obtain stem e where h: "p = stem @ CHR ''.'' # e" "map tolower_c e \<in> set whitelist" by blast
  have "CHR ''.'' \<notin> set (map tolower_c e)" using whitelist_no_dot[OF h(2)] .
  then have nd: "CHR ''.'' \<notin> set e" by (simp only: map_tolower_dot not_False_eq_True)
  have i: "find_last_of (CHR ''.'') p = Some (length stem)"
    unfolding h(1) using nd by (rule find_last_of_SomeI)
  have "substr_from p (length stem) = CHR ''.'' # e" using h by (simp add: substr_from_def)
  with i h(2) show "isImageFile p"
    by (auto simp: isImageFile_def whitelist_def tolower_c_dot)
qed

inductive_cases image_in_SomeE: "image_in d (Directory (Some es)) p"

inductive_cases image_in_NoneE: "image_in d (Directory None) p"

inductive_cases image_in_RegE: "image_in d RegularFile p"

inductive_cases image_in_OtherE: "image_in d OtherNode p"

inductive_cases image_in_NoStatE: "image_in d NoStat p"

lemmas image_here' = image_here[simplified]

lemmas image_below' = image_below[simplified]

lemma image_in_tail:
  "image_in d (Directory (Some es)) p \<Longrightarrow> image_in d (Directory (Some (e # es))) p"
  by (erule image_in_SomeE) (auto intro: image_here' image_below')

lemma image_in_Cons_iff:
  "image_in d (Directory (Some ((n, nd) # es))) p \<longleftrightarrow>
     (n \<noteq> ''.'' \<and> n \<noteq> ''..'' \<and>
        ((nd = RegularFile \<and> isImageFile (d @ ''/'' @ n) \<and> p = d @ ''/'' @ n)
         \<or> (isDirectory nd \<and> image_in (d @ ''/'' @ n) nd p)))
     \<or> image_in d (Directory (Some es)) p"
  (is "?L \<longleftrightarrow> ?R")
proof
  assume l: ?L
  show ?R
    by (rule image_in_SomeE[OF l]) (auto intro: image_here' image_below')
next
  assume ?R
  then consider
      (a) "n \<noteq> ''.''" "n \<noteq> ''..''" "nd = RegularFile" "isImageFile (d @ ''/'' @ n)" "p = d @ ''/'' @ n"
    | (b) "n \<noteq> ''.''" "n \<noteq> ''..''" "isDirectory nd" "image_in (d @ ''/'' @ n) nd p"
    | (c) "image_in d (Directory (Some es)) p" by blast
  then show ?L
  proof cases
    case a
    then show ?thesis using image_here[of n "(n, nd) # es" d] by simp
  next
    case b
    then obtain sub where "nd = Directory sub" by (cases nd) auto
    with b show ?thesis using image_below[of n sub "(n, nd) # es" d p] by simp
  next
    case c
    then show ?thesis by (rule image_in_tail)
  qed
qed

lemma collect_sets:
  "set (collectImagesFromDirectory d node acc) = set acc \<union> {p. image_in d node p}"
  "set (collectEntries d es acc) = set acc \<union> {p. image_in d (Directory (Some es)) p}"
proof (induction d node acc and d es acc rule: collectImagesFromDirectory_collectEntries.induct)
  case (1 dirPath imagePaths)
  then show ?case by (auto elim: image_in_NoneE)
next
  case (2 dirPath entries imagePaths)
  then show ?case by simp
next
  case (3 dirPath imagePaths)
  then show ?case by (auto elim: image_in_RegE)
next
  case (4 dirPath imagePaths)
  then show ?case by (auto elim: image_in_OtherE)
next
  case (5 dirPath imagePaths)
  then show ?case by (auto elim: image_in_NoStatE)
next
  case (6 dirPath imagePaths)
  then show ?case by (auto elim: image_in_SomeE)
next
  case (7 dirPath name node rest imagePaths)
  show ?case
  proof (cases "name = ''.'' \<or> name = ''..''")
    case True
    then show ?thesis using 7(1) by (auto simp: image_in_Cons_iff)
  next
    case False
    note nm = this
    show ?thesis
    proof (cases "isDirectory node")
      case True
      have "set (collectEntries dirPath ((name, node) # rest) imagePaths)
          = set imagePaths \<union> {p. image_in (dirPath @ ''/'' @ name) node p}
             \<union> {p. image_in dirPath (Directory (Some rest)) p}"
        using nm True 7(2)[OF nm refl True] 7(3)[OF nm refl True] by (simp add: Let_def)
      moreover have "node \<noteq> RegularFile" using True by auto
      ultimately show ?thesis using nm True by (auto simp: image_in_Cons_iff)
    next
      case False
      note nd = this
      show ?thesis
      proof (cases "isFile node \<and> isImageFile (dirPath @ ''/'' @ name)")
        case True
        then have "node = RegularFile" by (cases node) auto
        then show ?thesis using nm nd True 7(4)[OF nm refl nd True]
          by (auto simp: image_in_Cons_iff Let_def)
      next
        case False
        then have "\<not> (node = RegularFile \<and> isImageFile (dirPath @ ''/'' @ name))" by auto
        then show ?thesis using nm nd False 7(5)[OF nm refl nd False]
          by (auto simp: image_in_Cons_iff Let_def)
      qed
    qed
  qed
qed

lemma collectArgs_paths:
  "set (fst (collectArgs fs args (acc, ds))) =
     set acc \<union> {p. \<exists>a\<in>set args. (isFile (fs a) \<and> isImageFile a \<and> p = a) \<or> image_in a (fs a) p}"
proof (induction args arbitrary: acc ds)
  case Nil
  then show ?case by simp
next
  case (Cons a args)
  show ?case
  proof (cases "fs a")
    case RegularFile
    then have "\<And>p. \<not> image_in a (fs a) p" by (auto elim: image_in_RegE)
    with RegularFile show ?thesis by (auto simp: Cons.IH)
  next
    case (Directory sub)
    then show ?thesis by (auto simp: Cons.IH collect_sets)
  next
    case OtherNode
    then have "\<And>p. \<not> image_in a (fs a) p" by (auto elim: image_in_OtherE)
    with OtherNode show ?thesis by (auto simp: Cons.IH)
  next
    case NoStat
    then have "\<And>p. \<not> image_in a (fs a) p" by (auto elim: image_in_NoStatE)
    with NoStat show ?thesis by (auto simp: Cons.IH)
  qed
qed

lemma collectArgs_warnings:
  "snd (collectArgs fs args (acc, ds)) =
     ds @ map WarnInvalidPath (filter (invalid_argument fs) args)"
  by (induction args arbitrary: acc ds) (simp_all add: invalid_argument_def)

text \<open>
  C6. The paths discovery collects are exactly the arguments that are regular files
  with a whitelisted extension and the image files below the arguments that are
  directories, at any depth; every argument that is neither gives one warning on the
  diagnostic stream and nothing else; and a path has a whitelisted extension exactly
  when it ends in a dot followed by one of the five extensions in any letter case.
\<close>

theorem discovery_collects_whitelisted_files:
  "set (fst (collectImagePaths fs argv)) =
     {p. \<exists>a\<in>set (tl argv). (isFile (fs a) \<and> isImageFile a \<and> p = a) \<or> image_in a (fs a) p}
   \<and> snd (collectImagePaths fs argv) = map WarnInvalidPath (filter (invalid_argument fs) (tl argv))
   \<and> (isImageFile p \<longleftrightarrow> (\<exists>stem e. p = stem @ CHR ''.'' # e \<and> map tolower_c e \<in> set whitelist))"
  using collectArgs_paths[of fs "tl argv" "[]" "[]"] collectArgs_warnings[of fs "tl argv" "[]" "[]"]
    isImageFile_iff[of p]
  by (simp add: collectImagePaths_def)

lemmas string_eval =
  isImageFile_def find_last_of_def substr_from_def tolower_c_def

lemma sample_discovery:
  "collectImagePaths sample_fs sample_argv =
     ([''imgs/a.PNG'', ''imgs/sub/b.jpeg'', ''x.bmp''],
      [WarnInvalidPath ''readme.md'', WarnInvalidPath ''missing.png''])"
  by (simp add: collectImagePaths_def sample_fs_def sample_argv_def string_eval)

theorem discovery_collects_whitelisted_files_witness:
  "{p. \<exists>a\<in>set (tl sample_argv).
         (isFile (sample_fs a) \<and> isImageFile a \<and> p = a) \<or> image_in a (sample_fs a) p}
     = {''imgs/a.PNG'', ''imgs/sub/b.jpeg'', ''x.bmp''}
   \<and> map WarnInvalidPath (filter (invalid_argument sample_fs) (tl sample_argv))
     = [WarnInvalidPath ''readme.md'', WarnInvalidPath ''missing.png'']
   \<and> (\<exists>stem e. ''imgs/a.PNG'' = stem @ CHR ''.'' # e \<and> map tolower_c e \<in> set whitelist)"
proof -
  have img: "isImageFile ''imgs/a.PNG''" by (simp add: string_eval)
  show ?thesis
    using discovery_collects_whitelisted_files[of sample_fs sample_argv "''imgs/a.PNG''"] img
    by (simp add: sample_discovery)
qed

text \<open>
  C10. A directory that cannot be opened leaves the collected paths as they are, the
  loop over the entries of its parent goes on with the next entry, and the diagnostic
  stream of discovery holds nothing but the warnings for the invalid arguments.
\<close>

theorem unopenable_directory_skipped_silently:
  "collectImagesFromDirectory dirPath (Directory None) imagePaths = imagePaths
   \<and> collectEntries dirPath ((name, Directory None) # rest) imagePaths
       = collectEntries dirPath rest imagePaths
   \<and> snd (collectImagePaths fs argv) = map WarnInvalidPath (filter (invalid_argument fs) (tl argv))"
  using collectArgs_warnings[of fs "tl argv" "[]" "[]"]
  by (simp add: collectImagePaths_def)

theorem unopenable_directory_skipped_silently_witness:
  "collectImagesFromDirectory ''imgs/locked'' (Directory None) [''imgs/a.PNG''] = [''imgs/a.PNG'']
   \<and> collectEntries ''imgs'' [(''locked'', Directory None), (''z.png'', RegularFile)] []
       = [''imgs/z.png'']
   \<and> snd (collectImagePaths sample_fs [''benchmark'', ''imgs'']) = []"
proof -
  have "collectEntries ''imgs'' [(''z.png'', RegularFile)] [] = [''imgs/z.png'']"
    by (simp add: string_eval)
  moreover have "filter (invalid_argument sample_fs) (tl [''benchmark'', ''imgs'']) = []"
    by (simp add: invalid_argument_def sample_fs_def)
  ultimately show ?thesis
    using unopenable_directory_skipped_silently[of "''imgs''" "[]" "''locked''"
        "[(''z.png'', RegularFile)]" sample_fs "[''benchmark'', ''imgs'']"]
      unopenable_directory_skipped_silently[of "''imgs/locked''" "[''imgs/a.PNG'']"]
    by simp
qed

subsection \<open>The character count skips the backslashes only\<close>

lemma count_text_eq: "count_text t n = n + unescaped_bytes t"
  by (induction t arbitrary: n) (simp_all add: unescaped_bytes_def)

lemma find_char_after:
  assumes "c \<notin> set mid"
  shows "find_char c (length xs) (xs @ mid @ c # post) = Some (length xs + length mid)"
proof -
  have "first_index (\<lambda>x. x = c) (mid @ c # post) = Some (length mid)"
    using assms by (intro first_index_SomeI) auto
  then show ?thesis by (simp add: find_char_def)
qed

lemma find_char_absent:
  assumes "c \<notin> set ys"
  shows "find_char c (length xs) (xs @ ys) = None"
proof -
  have "first_index (\<lambda>x. x = c) ys = None"
    using assms by (auto simp: first_index_None)
  then show ?thesis by (simp add: find_char_def)
qed

lemma count_quoted_serialized:
  assumes "\<forall>(sep, t)\<in>set items. dquote \<notin> set sep \<and> dquote \<notin> set t"
    and "dquote \<notin> set trail"
  shows "count_quoted (done @ serialized_texts items @ trail) (length done) n =
           n + (\<Sum>(sep, t)\<leftarrow>items. unescaped_bytes t)"
  using assms(1)
proof (induction items arbitrary: "done" n)
  case Nil
  have "find_char dquote (length done) (done @ trail) = None"
    using assms(2) by (rule find_char_absent)
  then show ?case by (subst count_quoted.simps) simp
next
  case (Cons item items)
  obtain sep t where item: "item = (sep, t)" by (cases item)
  from Cons.prems item have sep: "dquote \<notin> set sep" and t: "dquote \<notin> set t"
    and rest: "\<forall>(sep, t)\<in>set items. dquote \<notin> set sep \<and> dquote \<notin> set t" by auto
  let ?tail = "serialized_texts items @ trail"
  let ?s = "done @ serialized_texts (item # items) @ trail"
  have s1: "?s = done @ sep @ dquote # (t @ dquote # ?tail)" by (simp add: item)
  have p: "find_char dquote (length done) ?s = Some (length done + length sep)"
    unfolding s1 using sep by (rule find_char_after)
  have s2: "?s = (done @ sep @ [dquote]) @ t @ dquote # ?tail" by (simp add: item)
  have e: "find_char dquote (length done + length sep + 1) ?s = Some (length done + length sep + 1 + length t)"
    using find_char_after[OF t, of "done @ sep @ [dquote]" ?tail] by (simp add: s2)
  have sub: "substr ?s (length done + length sep + 1) (length done + length sep + 1 + length t - (length done + length sep) - 1) = t"
    by (simp add: s2 substr_def)
  have s3: "?s = (done @ sep @ dquote # t @ [dquote]) @ serialized_texts items @ trail"
    by (simp add: item)
  have len: "length done + length sep + 1 + length t + 1 = length (done @ sep @ dquote # t @ [dquote])"
    by simp
  have "count_quoted ?s (length done) n
      = count_quoted ?s (length done + length sep + 1 + length t + 1) (count_text t n)"
    by (subst count_quoted.simps) (simp only: p e sub option.case)
  also have "\<dots> = count_text t n + (\<Sum>(sep, t)\<leftarrow>items. unescaped_bytes t)"
    unfolding len s3 by (rule Cons.IH[OF rest])
  finally show ?case by (simp add: item count_text_eq)
qed

lemma count_output_serialized:
  assumes first: "find_str rec_texts_marker json_output = Some (length pre)"
    and shape: "json_output = pre @ rec_texts_marker @ serialized_texts items @ trail @ CHR '']'' # post"
    and items: "\<forall>(sep, t)\<in>set items. dquote \<notin> set (sep @ t) \<and> CHR '']'' \<notin> set (sep @ t)"
    and trail: "dquote \<notin> set trail" "CHR '']'' \<notin> set trail"
  shows "count_output json_output n = n + (\<Sum>(sep, t)\<leftarrow>items. unescaped_bytes t)"
proof -
  let ?m = "dquote # ''rec_texts'' @ dquote # '': ''"
  let ?content = "serialized_texts items @ trail"
  have nb: "CHR ''['' \<notin> set ?m" by (simp add: dquote_def)
  have j1: "json_output = pre @ ?m @ CHR ''['' # (?content @ CHR '']'' # post)"
    by (simp add: shape rec_texts_marker_def)
  have open_at: "find_char (CHR ''['') (length pre) json_output = Some (length pre + length ?m)"
    unfolding j1 using nb by (rule find_char_after)
  have no_close: "CHR '']'' \<notin> set (serialized_texts items)"
    using items by (induction items) (auto simp: dquote_def)
  have nc: "CHR '']'' \<notin> set ?content" using no_close trail by simp
  have nc': "CHR '']'' \<notin> set (CHR ''['' # ?content)" using nc by simp
  have close_at: "find_char (CHR '']'') (length pre + length ?m) json_output
          = Some (length pre + length ?m + 1 + length ?content)"
    using find_char_after[OF nc', of "pre @ ?m" post] by (simp add: j1)
  have sub: "substr json_output (length pre + length ?m + 1)
               (length pre + length ?m + 1 + length ?content - (length pre + length ?m) - 1) = ?content"
    by (simp add: j1 substr_def)
  have q: "\<forall>(sep, t)\<in>set items. dquote \<notin> set sep \<and> dquote \<notin> set t" using items by auto
  have "count_quoted ([] @ serialized_texts items @ trail) (length ([]::string)) n
          = n + (\<Sum>(sep, t)\<leftarrow>items. unescaped_bytes t)"
    by (rule count_quoted_serialized[OF q trail(1)])
  then have cq: "count_quoted ?content 0 n = n + (\<Sum>(sep, t)\<leftarrow>items. unescaped_bytes t)" by simp
  show ?thesis
    unfolding count_output_def by (simp only: first open_at close_at sub option.case cq)
qed

lemmas count_eval =
  count_output_def count_quoted.simps find_char_def substr_def rec_texts_marker_def
  dquote_def backslash_def

text \<open>
  C8, as amended. When the printed result holds the marker, then texts between double
  quotes and the closing bracket, and no text or separator holds a double quote or a
  closing bracket, the count grows by the number of bytes of the texts other than the
  backslash: each backslash is skipped, and the character after it is counted.
\<close>

theorem char_count_skips_backslashes_only:
  assumes "find_str rec_texts_marker json_output = Some (length pre)"
    and "json_output = pre @ rec_texts_marker @ serialized_texts items @ trail @ CHR '']'' # post"
    and "\<forall>(sep, t)\<in>set items. dquote \<notin> set (sep @ t) \<and> CHR '']'' \<notin> set (sep @ t)"
    and "dquote \<notin> set trail" and "CHR '']'' \<notin> set trail"
  shows "count_output json_output n = n + (\<Sum>(sep, t)\<leftarrow>items. unescaped_bytes t)"
  using assms by (rule count_output_serialized)

theorem char_count_skips_backslashes_only_witness:
  "find_str rec_texts_marker two_texts_json = Some (length ''{'')
   \<and> count_output two_texts_json 0 = 6"
proof -
  have a: "find_str rec_texts_marker two_texts_json = Some (length ''{'')"
    by (simp add: two_texts_json_def rec_texts_marker_def dquote_def)
  have b: "two_texts_json =
      ''{'' @ rec_texts_marker @ serialized_texts [([], ''ab''), ('', '', escape_text)] @ []
        @ CHR '']'' # ''}''"
    by (simp add: two_texts_json_def)
  have c: "\<forall>(sep, t)\<in>set [([], ''ab''), ('', '', escape_text)].
         dquote \<notin> set (sep @ t) \<and> CHR '']'' \<notin> set (sep @ t)"
    by (simp add: escape_text_def dquote_def backslash_def)
  have d: "dquote \<notin> set []" "CHR '']'' \<notin> set []" by simp_all
  have "count_output two_texts_json 0 = 6"
    using char_count_skips_backslashes_only[OF a b c d, of 0]
    by (simp add: unescaped_bytes_def escape_text_def backslash_def)
  with a show ?thesis by blast
qed

text \<open>
  C8, as stated, fails. For the text \<^verbatim>\<open>a\nb\\c\<close> the driver counts 4: the characters
  \<^verbatim>\<open>a\<close>, \<^verbatim>\<open>n\<close>, \<^verbatim>\<open>b\<close> and \<^verbatim>\<open>c\<close>, the escaped \<^verbatim>\<open>n\<close> among them. Counting a
  character preceded by a backslash as zero width gives 5, and excluding the escape
  sequences gives 3.
\<close>

theorem escaped_characters_are_counted:
  "count_output escape_json 0 = 4
   \<and> spec_transcript_width escape_text = 5
   \<and> spec_sequence_width escape_text = 3
   \<and> count_output escape_json 0 \<noteq> spec_transcript_width escape_text
   \<and> count_output escape_json 0 \<noteq> spec_sequence_width escape_text"
  by (simp add: escape_json_def escape_text_def count_eval)

subsection \<open>The body of the loop, outcome by outcome\<close>

lemma process_image_InferenceRaised:
  assumes "image_outcome env i p = InferenceRaised e"
  shows "process_image env i p st = catch_block p e st"
proof -
  from assms have "runs_of env i p = Inl e"
    by (auto simp: image_outcome_def split: sum.splits option.splits prod.splits if_splits)
  then show ?thesis by (simp add: process_image_def runs_of_def)
qed

lemma process_image_SavingRaised:
  assumes "image_outcome env i p = SavingRaised e"
  shows "process_image env i p st =
           catch_block p e (st\<lparr>inference_times := inference_times st @ [image_latency env i p]\<rparr>)"
proof -
  from assms obtain rts outs n where r: "runs_of env i p = Inr (rts, outs, n)"
    and s: "save_outputs outs = Some e"
    by (auto simp: image_outcome_def split: sum.splits option.splits prod.splits if_splits)
  then show ?thesis
    using r s by (simp add: process_image_def runs_of_def[symmetric] image_latency_def Let_def)
qed

lemma process_image_ScoringFailed:
  assumes "image_outcome env i p = ScoringFailed"
  shows "process_image env i p st =
           st\<lparr>inference_times := inference_times st @ [image_latency env i p],
              cerr := cerr st @ snd (snd (scorer_result env i p))
                        @ [ErrAccuracyExec (image_filename p) (fst (snd (scorer_result env i p)))],
              cout := cout st @ [PER_IMAGE_RESULT (image_record env i p 0)]\<rparr>"
proof -
  from assms obtain rts outs n res d where r: "runs_of env i p = Inr (rts, outs, n)"
    and s: "save_outputs outs = None" and x: "scorer_result env i p = (False, res, d)"
    by (auto simp: image_outcome_def split: sum.splits option.splits prod.splits if_splits)
  show ?thesis
    using r s x
    by (simp add: process_image_def runs_of_def[symmetric] scorer_result_def[symmetric]
          image_latency_def image_chars_def image_record_def Let_def)
qed

lemma process_image_MarkerMissing:
  assumes "image_outcome env i p = MarkerMissing"
  shows "process_image env i p st =
           st\<lparr>inference_times := inference_times st @ [image_latency env i p],
              cerr := cerr st @ snd (snd (scorer_result env i p))
                        @ [ErrNoPrefix (image_filename p) (fst (snd (scorer_result env i p)))],
              successful_count := successful_count st + 1\<rparr>"
proof -
  from assms obtain rts outs n res d where r: "runs_of env i p = Inr (rts, outs, n)"
    and s: "save_outputs outs = None" and x: "scorer_result env i p = (True, res, d)"
    and m: "find_str prefix_marker res = None"
    by (auto simp: image_outcome_def split: sum.splits option.splits prod.splits if_splits)
  show ?thesis
    using r s x m
    by (simp add: process_image_def runs_of_def[symmetric] scorer_result_def[symmetric]
          image_latency_def image_chars_def image_record_def Let_def)
qed

lemma process_image_AccuracyRaised:
  assumes "image_outcome env i p = AccuracyRaised e"
  shows "process_image env i p st =
           catch_block p e
             (st\<lparr>inference_times := inference_times st @ [image_latency env i p],
                 cerr := cerr st @ snd (snd (scorer_result env i p))\<rparr>)"
proof -
  from assms obtain rts outs n res d js where r: "runs_of env i p = Inr (rts, outs, n)"
    and s: "save_outputs outs = None" and x: "scorer_result env i p = (True, res, d)"
    and m: "find_str prefix_marker res = Some js"
    and a: "parse_accuracy (env_stod env) (substr_from res (js + length prefix_marker)) = Inl e"
    by (auto simp: image_outcome_def split: sum.splits option.splits prod.splits if_splits)
  show ?thesis
    using r s x m a
    by (simp add: process_image_def runs_of_def[symmetric] scorer_result_def[symmetric]
          image_latency_def image_chars_def image_record_def Let_def)
qed

lemma process_image_Scored:
  assumes "image_outcome env i p = Scored acc"
  shows "process_image env i p st =
           st\<lparr>inference_times := inference_times st @ [image_latency env i p],
              cerr := cerr st @ snd (snd (scorer_result env i p)),
              cout := cout st @ [PER_IMAGE_RESULT (image_record env i p acc)],
              successful_count := successful_count st + 1\<rparr>"
proof -
  from assms obtain rts outs n res d js where r: "runs_of env i p = Inr (rts, outs, n)"
    and s: "save_outputs outs = None" and x: "scorer_result env i p = (True, res, d)"
    and m: "find_str prefix_marker res = Some js"
    and a: "parse_accuracy (env_stod env) (substr_from res (js + length prefix_marker)) = Inr acc"
    by (auto simp: image_outcome_def split: sum.splits option.splits prod.splits if_splits)
  show ?thesis
    using r s x m a
    by (simp add: process_image_def runs_of_def[symmetric] scorer_result_def[symmetric]
          image_latency_def image_chars_def image_record_def Let_def)
qed

lemmas process_image_cases =
  process_image_InferenceRaised process_image_SavingRaised process_image_ScoringFailed
  process_image_MarkerMissing process_image_AccuracyRaised process_image_Scored

lemma cout_process_image:
  "cout (process_image env i p st) = cout st @ image_lines env i p"
  by (cases "image_outcome env i p")
     (simp_all add: process_image_cases image_lines_def catch_block_def)

lemma failed_count_process_image:
  "failed_count (process_image env i p st) =
     failed_count st + (if counted_failed (image_outcome env i p) then 1 else 0)"
  by (cases "image_outcome env i p")
     (simp_all add: process_image_cases catch_block_def)

lemma successful_count_process_image:
  "successful_count (process_image env i p st) =
     successful_count st + (if counted_successful (image_outcome env i p) then 1 else 0)"
  by (cases "image_outcome env i p")
     (simp_all add: process_image_cases catch_block_def)

lemma inference_times_process_image:
  "inference_times (process_image env i p st) =
     inference_times st @ (if runs_completed (image_outcome env i p) then [image_latency env i p] else [])"
  by (cases "image_outcome env i p")
     (simp_all add: process_image_cases catch_block_def)

lemma cout_batch_loop:
  "cout (batch_loop env i ps st) =
     cout st @ concat (map (\<lambda>(j, p). image_lines env j p) (enumerate i ps))"
  by (induction ps arbitrary: i st) (simp_all add: cout_process_image)

lemma failed_count_batch_loop:
  "failed_count (batch_loop env i ps st) =
     failed_count st
     + int (length (filter (\<lambda>(j, p). counted_failed (image_outcome env j p)) (enumerate i ps)))"
  by (induction ps arbitrary: i st) (simp_all add: failed_count_process_image)

lemma successful_count_batch_loop:
  "successful_count (batch_loop env i ps st) =
     successful_count st
     + int (length (filter (\<lambda>(j, p). counted_successful (image_outcome env j p)) (enumerate i ps)))"
  by (induction ps arbitrary: i st) (simp_all add: successful_count_process_image)

lemma inference_times_batch_loop:
  "inference_times (batch_loop env i ps st) =
     inference_times st
     @ map (\<lambda>(j, p). image_latency env j p)
         (filter (\<lambda>(j, p). runs_completed (image_outcome env j p)) (enumerate i ps))"
  by (induction ps arbitrary: i st) (simp_all add: inference_times_process_image)

lemma run_loop_3: "run_loop predict (Suc (Suc (Suc 0))) rts outs n = Inr (rts, outs, n)"
  by (subst run_loop.simps) simp

lemma run_loop_2:
  "run_loop predict (Suc (Suc 0)) rts outs n =
     (case predict (Suc (Suc 0)) of PredictThrows e \<Rightarrow> Inl e
      | PredictReturns o2 d2 \<Rightarrow> Inr (rts @ [real_of_int d2 / 1000000], outs, n))"
  by (subst run_loop.simps) (simp add: run_loop_3 Let_def split: predict_result.splits)

lemma run_loop_1:
  "run_loop predict (Suc 0) rts outs n =
     (case predict (Suc 0) of PredictThrows e \<Rightarrow> Inl e
      | PredictReturns o1 d1 \<Rightarrow>
          run_loop predict (Suc (Suc 0)) (rts @ [real_of_int d1 / 1000000]) outs n)"
  by (subst run_loop.simps) (simp add: Let_def split: predict_result.splits)

lemma run_loop_0:
  "run_loop predict 0 rts outs n =
     (case predict 0 of PredictThrows e \<Rightarrow> Inl e
      | PredictReturns o0 d0 \<Rightarrow>
          run_loop predict (Suc 0) (rts @ [real_of_int d0 / 1000000]) o0 (count_outputs o0 n))"
  by (subst run_loop.simps) (simp add: Let_def split: predict_result.splits)

lemma run_loop_Inr_iff:
  "run_loop predict 0 [] [] 0 = Inr (rts, outs, n) \<longleftrightarrow>
     (\<exists>o0 d0 o1 d1 o2 d2.
        predict 0 = PredictReturns o0 d0 \<and> predict 1 = PredictReturns o1 d1
        \<and> predict 2 = PredictReturns o2 d2
        \<and> rts = [real_of_int d0 / 1000000, real_of_int d1 / 1000000, real_of_int d2 / 1000000]
        \<and> outs = o0 \<and> n = count_outputs o0 0)"
  by (cases "predict 0"; cases "predict (Suc 0)"; cases "predict (Suc (Suc 0))")
     (auto simp: run_loop_0 run_loop_1 run_loop_2 numeral_2_eq_2)

lemma run_loop_Inl_iff:
  "run_loop predict 0 [] [] 0 = Inl e \<longleftrightarrow>
     (\<exists>run < 3. predict run = PredictThrows e
        \<and> (\<forall>r < run. \<exists>outs d. predict r = PredictReturns outs d))"
  unfolding numeral_3_eq_3 Ex_less_Suc All_less_Suc
  by (cases "predict 0"; cases "predict (Suc 0)"; cases "predict (Suc (Suc 0))")
     (simp_all add: run_loop_0 run_loop_1 run_loop_2)

lemma average_ms_3: "average_ms [a, b, c] = (a + b + c) / 3"
  by (simp add: average_ms_def)

subsection \<open>The summary and the final state\<close>

lemma stats_loop_eq:
  "stats_loop ts (a, lo, hi) = (a + sum_list ts, fold (\<lambda>t m. min m t) ts lo, fold (\<lambda>t m. max m t) ts hi)"
  by (induction ts arbitrary: a lo hi) simp_all

lemma fold_min_eq: "fold (\<lambda>t m. min m t) ts (lo::real) = Min (insert lo (set ts))"
proof (induction ts arbitrary: lo)
  case Nil
  then show ?case by simp
next
  case (Cons t ts)
  have "Min (insert (min lo t) (set ts)) = Min (insert lo (insert t (set ts)))"
  proof (cases "set ts = {}")
    case True
    then show ?thesis by (simp add: min.commute)
  next
    case False
    then show ?thesis by (simp add: min.assoc)
  qed
  with Cons show ?case by simp
qed

lemma fold_max_eq: "fold (\<lambda>t m. max m t) ts (hi::real) = Max (insert hi (set ts))"
proof (induction ts arbitrary: hi)
  case Nil
  then show ?case by simp
next
  case (Cons t ts)
  have "Max (insert (max hi t) (set ts)) = Max (insert hi (insert t (set ts)))"
  proof (cases "set ts = {}")
    case True
    then show ?thesis by (simp add: max.commute)
  next
    case False
    then show ?thesis by (simp add: max.assoc)
  qed
  with Cons show ?case by simp
qed

lemma stats_loop_nonempty:
  assumes "ts \<noteq> []"
  shows "stats_loop ts (0, hd ts, hd ts) = (sum_list ts, Min (set ts), Max (set ts))"
proof -
  from assms have "insert (hd ts) (set ts) = set ts" by (cases ts) auto
  then show ?thesis by (simp add: stats_loop_eq fold_min_eq fold_max_eq)
qed

lemma make_summary_eq:
  assumes "inference_times st \<noteq> []"
  shows "make_summary n st =
     \<lparr>s_total_images = n,
      s_successful = successful_count st,
      s_failed = failed_count st,
      s_success_rate = 100 * real_of_int (successful_count st) / real n,
      s_total_inference_time = sum_list (inference_times st),
      s_avg_inference_time = sum_list (inference_times st) / real (length (inference_times st)),
      s_min_time = Min (set (inference_times st)),
      s_max_time = Max (set (inference_times st)),
      s_avg_fps = ieee_div 1000 (sum_list (inference_times st) / real (length (inference_times st))),
      s_total_fps = ieee_div (real_of_int (successful_count st) * 1000) (sum_list (inference_times st))\<rparr>"
  by (simp add: make_summary_def stats_loop_nonempty[OF assms] Let_def)

lemma final_state:
  "batch_loop env 0 ps (initial_state w) =
     \<lparr>inference_times = completed_latencies env ps,
      successful_count = count_where counted_successful env ps,
      failed_count = count_where counted_failed env ps,
      cout = batch_lines env ps,
      cerr = cerr (batch_loop env 0 ps (initial_state w))\<rparr>"
  by (rule loop_state.equality)
     (simp_all add: inference_times_batch_loop successful_count_batch_loop failed_count_batch_loop
        cout_batch_loop initial_state_def completed_latencies_def batch_lines_def count_where_def)

lemma main_processing:
  assumes "2 \<le> length (env_argv env)"
    and "collectImagePaths (env_fs env) (env_argv env) = (ps, w)"
    and "ps \<noteq> []"
  shows "exit_code (main env) = (if count_where counted_failed env ps > 0 then 1 else 0)"
    and "stdout_of (main env) =
           (if completed_latencies env ps \<noteq> []
            then batch_lines env ps @ [SUMMARY (make_summary (length ps) (batch_loop env 0 ps (initial_state w)))]
            else batch_lines env ps)"
proof -
  let ?st = "batch_loop env 0 ps (initial_state w)"
  have f: "failed_count ?st = count_where counted_failed env ps"
    and t: "inference_times ?st = completed_latencies env ps"
    and c: "cout ?st = batch_lines env ps"
    using final_state[of env ps w] by (metis loop_state.select_convs)+
  show "exit_code (main env) = (if count_where counted_failed env ps > 0 then 1 else 0)"
    using assms f by (simp add: main_def Let_def)
  show "stdout_of (main env) =
           (if completed_latencies env ps \<noteq> []
            then batch_lines env ps @ [SUMMARY (make_summary (length ps) ?st)]
            else batch_lines env ps)"
    using assms t c by (simp add: main_def Let_def)
qed

subsection \<open>Exit code, derived metrics, repetition loop and summary\<close>

lemma count_where_pos:
  "count_where P env ps > 0 \<longleftrightarrow> (\<exists>(j, q)\<in>set (enumerate 0 ps). P (image_outcome env j q))"
proof -
  have "length (filter (\<lambda>(j, q). P (image_outcome env j q)) (enumerate 0 ps)) > 0
        \<longleftrightarrow> filter (\<lambda>(j, q). P (image_outcome env j q)) (enumerate 0 ps) \<noteq> []"
    by simp
  also have "\<dots> \<longleftrightarrow> (\<exists>(j, q)\<in>set (enumerate 0 ps). P (image_outcome env j q))"
    by (simp only: filter_empty_conv) auto
  finally show ?thesis by (simp add: count_where_def)
qed

text \<open>
  C5. \<^verbatim>\<open>main\<close> returns 1 when no argument is given, when discovery finds no image, and
  when the processing of at least one image raised an exception (reached the catch
  block); in every other case, that is when images were processed and none of them
  failed, it returns 0.
\<close>

theorem exit_code_cases:
  "exit_code (main env) =
     (if length (env_argv env) < 2
         \<or> fst (collectImagePaths (env_fs env) (env_argv env)) = []
         \<or> (\<exists>(j, q)\<in>set (enumerate 0 (fst (collectImagePaths (env_fs env) (env_argv env)))).
               counted_failed (image_outcome env j q))
      then 1 else 0)"
proof (cases "length (env_argv env) < 2")
  case True
  then show ?thesis by (simp add: main_def)
next
  case False
  obtain ps w where c: "collectImagePaths (env_fs env) (env_argv env) = (ps, w)"
    by (cases "collectImagePaths (env_fs env) (env_argv env)")
  show ?thesis
  proof (cases "ps = []")
    case True
    with False c show ?thesis by (simp add: main_def)
  next
    case nonempty: False
    from False have "2 \<le> length (env_argv env)" by simp
    from main_processing(1)[OF this c nonempty] False nonempty c
    show ?thesis by (simp add: count_where_pos)
  qed
qed

lemma image_lines_records:
  assumes "PER_IMAGE_RESULT r \<in> set (image_lines env j q)"
  shows "\<exists>acc. r = image_record env j q acc"
  using assms by (cases "image_outcome env j q") (auto simp: image_lines_def)




lemma runs_of_Inr:
  assumes "runs_of env i p = Inr (run_times, final_outputs, n)"
  shows "image_latency env i p = average_ms run_times" and "image_chars env i p = n"
    and "runs_completed (image_outcome env i p)"
    and "image_outcome env i p = SavingRaised e \<longleftrightarrow> save_outputs final_outputs = Some e"
  using assms
  by (auto simp: image_latency_def image_chars_def image_outcome_def
        split: option.splits prod.splits sum.splits)

text \<open>
  C2. When the repetition loop of an image completes, \<^verbatim>\<open>Predict\<close> returned in the runs 0,
  1 and 2; the list of run times holds exactly the three measured times; the retained
  outputs are those of run 0, and the character count and the save loop work on them;
  and the average latency appended to \<^verbatim>\<open>inference_times\<close> and printed in the
  record of the image is the arithmetic mean of the three times.
\<close>

theorem three_runs_first_result_mean:
  assumes "runs_of env i p = Inr (run_times, final_outputs, n)"
  shows "\<exists>o0 d0 o1 d1 o2 d2.
           env_predict env i p 0 = PredictReturns o0 d0
         \<and> env_predict env i p 1 = PredictReturns o1 d1
         \<and> env_predict env i p 2 = PredictReturns o2 d2
         \<and> length run_times = 3
         \<and> run_times = [real_of_int d0 / 1000000, real_of_int d1 / 1000000, real_of_int d2 / 1000000]
         \<and> final_outputs = o0
         \<and> n = count_outputs o0 0
         \<and> (image_outcome env i p = SavingRaised e \<longleftrightarrow> save_outputs o0 = Some e)
         \<and> average_ms run_times
             = (real_of_int d0 / 1000000 + real_of_int d1 / 1000000 + real_of_int d2 / 1000000) / 3
         \<and> inference_times (process_image env i p st) = inference_times st @ [average_ms run_times]
         \<and> (\<forall>r. PER_IMAGE_RESULT r \<in> set (image_lines env i p) \<longrightarrow>
                r_inference_ms r = average_ms run_times \<and> r_total_chars r = count_outputs o0 0)"
proof -
  from assms obtain o0 d0 o1 d1 o2 d2 where
    p: "env_predict env i p 0 = PredictReturns o0 d0" "env_predict env i p 1 = PredictReturns o1 d1"
       "env_predict env i p 2 = PredictReturns o2 d2"
    and r: "run_times = [real_of_int d0 / 1000000, real_of_int d1 / 1000000, real_of_int d2 / 1000000]"
    and f: "final_outputs = o0" and n: "n = count_outputs o0 0"
    unfolding runs_of_def run_loop_Inr_iff by blast
  have a: "average_ms run_times
             = (real_of_int d0 / 1000000 + real_of_int d1 / 1000000 + real_of_int d2 / 1000000) / 3"
    unfolding r by (rule average_ms_3)
  have t: "inference_times (process_image env i p st) = inference_times st @ [average_ms run_times]"
    using runs_of_Inr(1,3)[OF assms] by (simp add: inference_times_process_image)
  have s: "image_outcome env i p = SavingRaised e \<longleftrightarrow> save_outputs o0 = Some e"
    using runs_of_Inr(4)[OF assms] f by simp
  have l: "\<forall>r. PER_IMAGE_RESULT r \<in> set (image_lines env i p) \<longrightarrow>
                r_inference_ms r = average_ms run_times \<and> r_total_chars r = count_outputs o0 0"
  proof (intro allI impI)
    fix r assume "PER_IMAGE_RESULT r \<in> set (image_lines env i p)"
    from image_lines_records[OF this] obtain acc where "r = image_record env i p acc" by blast
    then show "r_inference_ms r = average_ms run_times \<and> r_total_chars r = count_outputs o0 0"
      using runs_of_Inr(1,2)[OF assms] n by (simp add: image_record_def)
  qed
  have len: "length run_times = 3" unfolding r by simp
  from p len r f n s a t l show ?thesis by blast
qed

text \<open>
  C3, as amended. When at least one image completed its repetition loop, the run
  prints, after the records, one summary. Its statistics range over every image whose
  repetition loop completed, whether the run then counts the image as successful, as
  failed or as neither: the total is the sum of their average latencies, the average
  that sum divided by their number, the minimum and the maximum are taken over the
  same list, the per-image frame rate is 1000 divided by that average, and the batch
  frame rate is \<^verbatim>\<open>successful_count\<close> times 1000 divided by that sum.
\<close>

theorem summary_statistics:
  assumes "2 \<le> length (env_argv env)"
    and "collectImagePaths (env_fs env) (env_argv env) = (ps, w)"
    and "completed_latencies env ps \<noteq> []"
  shows "\<exists>S. stdout_of (main env) = batch_lines env ps @ [SUMMARY S]
           \<and> s_total_inference_time S = sum_list (completed_latencies env ps)
           \<and> s_avg_inference_time S
               = sum_list (completed_latencies env ps) / real (length (completed_latencies env ps))
           \<and> s_min_time S = Min (set (completed_latencies env ps))
           \<and> s_max_time S = Max (set (completed_latencies env ps))
           \<and> s_avg_fps S = ieee_div 1000 (s_avg_inference_time S)
           \<and> s_successful S = count_where counted_successful env ps
           \<and> s_total_fps S
               = ieee_div (real_of_int (s_successful S) * 1000) (sum_list (completed_latencies env ps))"
proof -
  let ?st = "batch_loop env 0 ps (initial_state w)"
  from assms(3) have ne: "ps \<noteq> []" by (auto simp: completed_latencies_def)
  have t: "inference_times ?st = completed_latencies env ps"
    and sc: "successful_count ?st = count_where counted_successful env ps"
    using final_state[of env ps w] by (metis loop_state.select_convs)+
  have out: "stdout_of (main env) = batch_lines env ps @ [SUMMARY (make_summary (length ps) ?st)]"
    using main_processing(2)[OF assms(1,2) ne] assms(3) by simp
  have nonempty: "inference_times ?st \<noteq> []" using t assms(3) by simp
  show ?thesis
    by (rule exI[of _ "make_summary (length ps) ?st"])
       (simp add: out make_summary_eq[OF nonempty] t sc)
qed

subsection \<open>The sample runs, evaluated\<close>

lemma sample_count: "count_output (print_text sample_output) 0 = 6"
  by (simp add: sample_output_def two_texts_json_def escape_text_def count_eval)

lemma sample_parse: "parse_accuracy sample_stod sample_payload = Inr (1 / 2)"
  by (simp add: parse_accuracy_def sample_payload_def accuracy_key_def dquote_def find_char_def
        find_first_of_def substr_def isspace_c_def sample_stod_def)

lemma sample_marker: "find_str prefix_marker sample_score = Some 7"
  by (simp add: sample_score_def prefix_marker_def sample_payload_def)

lemma sample_after_marker:
  "substr_from sample_score (7 + length prefix_marker) = sample_payload"
  by (simp add: sample_score_def prefix_marker_def substr_from_def)

lemma sample_scored:
  assumes "runs_of env i p = Inr (rts, outs, n)" and "save_outputs outs = None"
    and "env_popen env i (scoring_command (get_root_path (env_pwd env)) (image_filename p))
           = PopenRuns sample_score 0"
    and "env_stod env = sample_stod"
  shows "image_outcome env i p = Scored (1 / 2)"
  using assms
  by (simp add: image_outcome_def scorer_result_def ExecuteCommand_def
        sample_marker sample_after_marker sample_parse)

lemmas run_loop_eval = run_loop_0 run_loop_1 run_loop_2

lemma sample_paths:
  "collectImagePaths (env_fs (sample_env args predict popen)) (env_argv (sample_env args predict popen))
     = collectArgs (\<lambda>path. RegularFile) args ([], [])"
  by (simp add: sample_env_def collectImagePaths_def)

lemma isolation_paths:
  "collectImagePaths (env_fs isolation_env) (env_argv isolation_env)
     = ([''d/1.png'', ''d/2.png'', ''d/3.png'', ''d/4.png'', ''d/5.png''], [])"
  unfolding isolation_env_def sample_paths by (simp add: string_eval)

lemma isolation_runs:
  assumes "i \<noteq> 2"
  shows "runs_of isolation_env i p = Inr ([500, 500, 500], [sample_output], 6)"
  using assms
  by (simp add: runs_of_def isolation_env_def sample_env_def run_loop_eval sample_count)

lemma isolation_ok:
  assumes "i \<noteq> 2"
  shows "image_outcome isolation_env i p = Scored (1 / 2)"
    and "image_latency isolation_env i p = 500"
    and "image_chars isolation_env i p = 6"
proof -
  note r = isolation_runs[OF assms, of p]
  have s: "save_outputs [sample_output] = None" by (simp add: sample_output_def)
  show "image_outcome isolation_env i p = Scored (1 / 2)"
    by (rule sample_scored[OF r s]) (simp_all add: isolation_env_def sample_env_def)
  show "image_latency isolation_env i p = 500" using r by (simp add: image_latency_def average_ms_def)
  show "image_chars isolation_env i p = 6" using r by (simp add: image_chars_def)
qed

subsection \<open>An exception of the engine stays with its image\<close>

lemma batch_loop_append:
  "batch_loop env k (xs @ ys) st = batch_loop env (k + length xs) ys (batch_loop env k xs st)"
  by (induction xs arbitrary: k st) simp_all

lemma batch_lines_split:
  "batch_lines env (before @ p # rest) =
     batch_lines env before @ image_lines env (length before) p
       @ concat (map (\<lambda>(j, q). image_lines env j q) (enumerate (Suc (length before)) rest))"
  by (simp add: batch_lines_def enumerate_append_eq)

lemma image_outcome_InferenceRaised:
  assumes "run < 3" and "env_predict env i p run = PredictThrows e"
    and "\<forall>r<run. \<exists>outs d. env_predict env i p r = PredictReturns outs d"
  shows "image_outcome env i p = InferenceRaised e"
proof -
  have "run_loop (env_predict env i p) 0 [] [] 0 = Inl e"
    unfolding run_loop_Inl_iff using assms by blast
  then show ?thesis by (simp add: image_outcome_def runs_of_def)
qed

text \<open>
  C7. When \<^verbatim>\<open>Predict\<close> raises in one of the three runs of an image, the body of the loop
  adds one to \<^verbatim>\<open>failed_count\<close> and writes one error line, and changes nothing else: no
  record and no latency. The loop goes on with the next image, and the records of the
  batch are those of the images before followed by those of the images after.
\<close>

theorem inference_exception_is_isolated:
  assumes "run < 3" and "env_predict env i p run = PredictThrows e"
    and "\<forall>r<run. \<exists>outs d. env_predict env i p r = PredictReturns outs d"
    and "i = length before"
  shows "process_image env i p st
           = st\<lparr>failed_count := failed_count st + 1, cerr := cerr st @ [ErrProcessFailed p e]\<rparr>
       \<and> cout (process_image env i p st) = cout st
       \<and> inference_times (process_image env i p st) = inference_times st
       \<and> batch_loop env 0 (before @ p # rest) st
           = batch_loop env (Suc i) rest
               ((batch_loop env 0 before st)
                  \<lparr>failed_count := failed_count (batch_loop env 0 before st) + 1,
                   cerr := cerr (batch_loop env 0 before st) @ [ErrProcessFailed p e]\<rparr>)
       \<and> batch_lines env (before @ p # rest)
           = batch_lines env before
               @ concat (map (\<lambda>(j, q). image_lines env j q) (enumerate (Suc i) rest))"
proof -
  note o = image_outcome_InferenceRaised[OF assms(1-3)]
  have step: "\<And>s. process_image env i p s
           = s\<lparr>failed_count := failed_count s + 1, cerr := cerr s @ [ErrProcessFailed p e]\<rparr>"
    using process_image_InferenceRaised[OF o] by (simp add: catch_block_def)
  have "batch_loop env 0 (before @ p # rest) st
          = batch_loop env (Suc i) rest (process_image env i p (batch_loop env 0 before st))"
    by (simp add: batch_loop_append assms(4))
  moreover have "image_lines env i p = []" using o by (simp add: image_lines_def)
  then have "batch_lines env (before @ p # rest)
           = batch_lines env before
               @ concat (map (\<lambda>(j, q). image_lines env j q) (enumerate (Suc i) rest))"
    by (simp add: batch_lines_split assms(4))
  ultimately show ?thesis by (simp add: step)
qed

lemma main_summary:
  assumes "2 \<le> length (env_argv env)"
    and "collectImagePaths (env_fs env) (env_argv env) = (ps, w)"
    and "completed_latencies env ps \<noteq> []"
  shows "stdout_of (main env) =
     batch_lines env ps @
     [SUMMARY
        \<lparr>s_total_images = length ps,
         s_successful = count_where counted_successful env ps,
         s_failed = count_where counted_failed env ps,
         s_success_rate = 100 * real_of_int (count_where counted_successful env ps) / real (length ps),
         s_total_inference_time = sum_list (completed_latencies env ps),
         s_avg_inference_time =
           sum_list (completed_latencies env ps) / real (length (completed_latencies env ps)),
         s_min_time = Min (set (completed_latencies env ps)),
         s_max_time = Max (set (completed_latencies env ps)),
         s_avg_fps =
           ieee_div 1000
             (sum_list (completed_latencies env ps) / real (length (completed_latencies env ps))),
         s_total_fps =
           ieee_div (real_of_int (count_where counted_successful env ps) * 1000)
             (sum_list (completed_latencies env ps))\<rparr>]"
proof -
  let ?st = "batch_loop env 0 ps (initial_state w)"
  from assms(3) have ne: "ps \<noteq> []" by (auto simp: completed_latencies_def)
  have t: "inference_times ?st = completed_latencies env ps"
    and sc: "successful_count ?st = count_where counted_successful env ps"
    and fc: "failed_count ?st = count_where counted_failed env ps"
    using final_state[of env ps w] by (metis loop_state.select_convs)+
  have nonempty: "inference_times ?st \<noteq> []" using t assms(3) by simp
  have "stdout_of (main env) = batch_lines env ps @ [SUMMARY (make_summary (length ps) ?st)]"
    using main_processing(2)[OF assms(1,2) ne] assms(3) by simp
  also have "make_summary (length ps) ?st =
        \<lparr>s_total_images = length ps,
         s_successful = count_where counted_successful env ps,
         s_failed = count_where counted_failed env ps,
         s_success_rate = 100 * real_of_int (count_where counted_successful env ps) / real (length ps),
         s_total_inference_time = sum_list (completed_latencies env ps),
         s_avg_inference_time =
           sum_list (completed_latencies env ps) / real (length (completed_latencies env ps)),
         s_min_time = Min (set (completed_latencies env ps)),
         s_max_time = Max (set (completed_latencies env ps)),
         s_avg_fps =
           ieee_div 1000
             (sum_list (completed_latencies env ps) / real (length (completed_latencies env ps))),
         s_total_fps =
           ieee_div (real_of_int (count_where counted_successful env ps) * 1000)
             (sum_list (completed_latencies env ps))\<rparr>"
    unfolding make_summary_eq[OF nonempty] t sc fc ..
  finally show ?thesis .
qed

lemma isolation_lines:
  assumes "i \<noteq> 2"
  shows "image_lines isolation_env i p = [PER_IMAGE_RESULT (sample_record (image_filename p) (1 / 2))]"
  using isolation_ok[OF assms, of p]
  by (simp add: image_lines_def image_record_def sample_record_def image_fps_def
        image_chars_per_second_def)

lemmas filename_eval = image_filename_def find_last_of_def

theorem inference_exception_is_isolated_witness:
  "env_predict isolation_env 2 ''d/3.png'' 1 = PredictThrows ''unreadable''
   \<and> stdout_of (main isolation_env) =
       [PER_IMAGE_RESULT (sample_record ''1.png'' (1 / 2)),
        PER_IMAGE_RESULT (sample_record ''2.png'' (1 / 2)),
        PER_IMAGE_RESULT (sample_record ''4.png'' (1 / 2)),
        PER_IMAGE_RESULT (sample_record ''5.png'' (1 / 2)),
        SUMMARY
          \<lparr>s_total_images = 5, s_successful = 4, s_failed = 1, s_success_rate = 80,
           s_total_inference_time = 2000, s_avg_inference_time = 500, s_min_time = 500,
           s_max_time = 500, s_avg_fps = Fin 2, s_total_fps = Fin 2\<rparr>]"
proof -
  let ?ps = "[''d/1.png'', ''d/2.png''] @ ''d/3.png'' # [''d/4.png'', ''d/5.png'']"
  have h1: "(1::nat) < 3" by simp
  have h2: "env_predict isolation_env 2 ''d/3.png'' 1 = PredictThrows ''unreadable''"
    by (simp add: isolation_env_def sample_env_def)
  have h3: "\<forall>r<1. \<exists>outs d. env_predict isolation_env 2 ''d/3.png'' r = PredictReturns outs d"
    by (simp add: isolation_env_def sample_env_def)
  have h4: "2 = length [''d/1.png'', ''d/2.png'']" by simp
  note th = inference_exception_is_isolated[OF h1 h2 h3 h4, of _ "[''d/4.png'', ''d/5.png'']"]
  have o3: "image_outcome isolation_env 2 ''d/3.png'' = InferenceRaised ''unreadable''"
    by (rule image_outcome_InferenceRaised[OF h1 h2 h3])
  then have o3: "image_outcome isolation_env (Suc (Suc 0)) ''d/3.png'' = InferenceRaised ''unreadable''"
    by (simp add: numeral_2_eq_2)
  have lines: "batch_lines isolation_env ?ps =
       [PER_IMAGE_RESULT (sample_record ''1.png'' (1 / 2)),
        PER_IMAGE_RESULT (sample_record ''2.png'' (1 / 2)),
        PER_IMAGE_RESULT (sample_record ''4.png'' (1 / 2)),
        PER_IMAGE_RESULT (sample_record ''5.png'' (1 / 2))]"
    using th by (simp add: batch_lines_def isolation_lines filename_eval)
  have lat: "completed_latencies isolation_env ?ps = [500, 500, 500, 500]"
    by (simp add: completed_latencies_def isolation_ok o3)
  have succ: "count_where counted_successful isolation_env ?ps = 4"
    by (simp add: count_where_def isolation_ok o3)
  have fail: "count_where counted_failed isolation_env ?ps = 1"
    by (simp add: count_where_def isolation_ok o3)
  have a: "2 \<le> length (env_argv isolation_env)" by (simp add: isolation_env_def sample_env_def)
  have c: "collectImagePaths (env_fs isolation_env) (env_argv isolation_env) = (?ps, [])"
    using isolation_paths by simp
  have ne: "completed_latencies isolation_env ?ps \<noteq> []" using lat by simp
  show ?thesis
    unfolding main_summary[OF a c ne] lines lat succ fail
    using h2 by (simp add: ieee_div_def)
qed

subsection \<open>A scorer that fails counts as neither success nor failure\<close>

lemma counts_step_le:
  "successful_count (process_image env i p st) + failed_count (process_image env i p st)
     \<le> successful_count st + failed_count st + 1"
  by (cases "image_outcome env i p")
     (simp_all add: successful_count_process_image failed_count_process_image)

lemma counts_batch_le:
  "successful_count (batch_loop env k xs st) + failed_count (batch_loop env k xs st)
     \<le> successful_count st + failed_count st + int (length xs)"
proof (induction xs arbitrary: k st)
  case Nil
  then show ?case by simp
next
  case (Cons x xs)
  from Cons.IH[of "Suc k" "process_image env k x st"] counts_step_le[of env k x st]
  show ?case by simp
qed

lemma inference_times_batch_mono:
  "set (inference_times st) \<subseteq> set (inference_times (batch_loop env k xs st))"
  by (simp add: inference_times_batch_loop)

lemma image_outcome_ScoringFailed:
  assumes "runs_of env i p = Inr (run_times, final_outputs, n)"
    and "save_outputs final_outputs = None"
    and "env_popen env i (scoring_command (get_root_path (env_pwd env)) (image_filename p))
           = PopenRuns text status"
    and "status \<noteq> 0"
  shows "image_outcome env i p = ScoringFailed"
    and "scorer_result env i p = (False, text, [])"
  using assms by (simp_all add: image_outcome_def scorer_result_def ExecuteCommand_def)

text \<open>
  C9. When the three runs and the saving of an image succeed and the scoring command
  exits with a nonzero status, the body of the loop appends the average latency, prints
  the record with accuracy 0 and leaves both counters as they are. So at the end of
  the batch the two counters add up to less than the number of images, the latency of
  the image is among those the summary adds up, and the success rate and the batch
  frame rate use a \<^verbatim>\<open>successful_count\<close> that does not count the image.
\<close>

theorem scoring_failure_counts_as_neither:
  assumes "runs_of env i p = Inr (run_times, final_outputs, n)"
    and "save_outputs final_outputs = None"
    and "env_popen env i (scoring_command (get_root_path (env_pwd env)) (image_filename p))
           = PopenRuns text status"
    and "status \<noteq> 0"
    and "i = length before"
  shows "process_image env i p st
           = st\<lparr>inference_times := inference_times st @ [average_ms run_times],
                cerr := cerr st @ [ErrAccuracyExec (image_filename p) text],
                cout := cout st @
                  [PER_IMAGE_RESULT
                     \<lparr>r_filename = image_filename p, r_inference_ms = average_ms run_times,
                      r_fps = image_fps (average_ms run_times),
                      r_chars_per_second = image_chars_per_second n (average_ms run_times),
                      r_total_chars = n, r_accuracy = 0\<rparr>]\<rparr>
       \<and> successful_count (process_image env i p st) = successful_count st
       \<and> failed_count (process_image env i p st) = failed_count st
       \<and> (let final = batch_loop env 0 (before @ p # rest) (initial_state w) in
            successful_count final + failed_count final < int (length (before @ p # rest))
          \<and> average_ms run_times \<in> set (inference_times final)
          \<and> s_total_inference_time (make_summary N final) = sum_list (inference_times final)
          \<and> s_total_fps (make_summary N final)
              = ieee_div (real_of_int (successful_count final) * 1000) (sum_list (inference_times final))
          \<and> s_success_rate (make_summary N final)
              = 100 * real_of_int (successful_count final) / real N)"
proof -
  note o = image_outcome_ScoringFailed[OF assms(1-4)]
  have step: "\<And>s. process_image env i p s
           = s\<lparr>inference_times := inference_times s @ [average_ms run_times],
                cerr := cerr s @ [ErrAccuracyExec (image_filename p) text],
                cout := cout s @
                  [PER_IMAGE_RESULT
                     \<lparr>r_filename = image_filename p, r_inference_ms = average_ms run_times,
                      r_fps = image_fps (average_ms run_times),
                      r_chars_per_second = image_chars_per_second n (average_ms run_times),
                      r_total_chars = n, r_accuracy = 0\<rparr>]\<rparr>"
    using process_image_ScoringFailed[OF o(1)] o(2) runs_of_Inr(1,2)[OF assms(1)]
    by (simp add: image_record_def)
  let ?mid = "batch_loop env 0 before (initial_state w)"
  let ?final = "batch_loop env 0 (before @ p # rest) (initial_state w)"
  have final: "?final = batch_loop env (Suc i) rest (process_image env i p ?mid)"
    by (simp add: batch_loop_append assms(5))
  have "successful_count ?mid + failed_count ?mid \<le> int (length before)"
    using counts_batch_le[of env 0 before "initial_state w"] by (simp add: initial_state_def)
  then have "successful_count (process_image env i p ?mid) + failed_count (process_image env i p ?mid)
          \<le> int (length before)"
    by (simp add: step)
  with counts_batch_le[of env "Suc i" rest "process_image env i p ?mid"]
  have lt: "successful_count ?final + failed_count ?final < int (length (before @ p # rest))"
    unfolding final by simp
  have "average_ms run_times \<in> set (inference_times (process_image env i p ?mid))"
    by (simp add: step)
  with inference_times_batch_mono[of "process_image env i p ?mid" env "Suc i" rest]
  have mem: "average_ms run_times \<in> set (inference_times ?final)"
    unfolding final by blast
  then have ne: "inference_times ?final \<noteq> []" by auto
  show ?thesis
    using lt mem by (simp add: step Let_def make_summary_eq[OF ne])
qed

lemma sample_saved: "save_outputs [sample_output] = None"
  by (simp add: sample_output_def)

lemma scoring_failed_runs:
  "runs_of scoring_failed_env i p = Inr ([500, 500, 500], [sample_output], 6)"
  by (simp add: runs_of_def scoring_failed_env_def sample_env_def run_loop_eval sample_count)

lemma scoring_failed_paths:
  "collectImagePaths (env_fs scoring_failed_env) (env_argv scoring_failed_env)
     = ([''d/1.png'', ''d/2.png''], [])"
  unfolding scoring_failed_env_def sample_paths by (simp add: string_eval)

lemma scoring_failed_first:
  "env_popen scoring_failed_env 0
     (scoring_command (get_root_path (env_pwd scoring_failed_env)) (image_filename p))
     = PopenRuns ''Traceback'' 256"
  by (simp add: scoring_failed_env_def sample_env_def)

lemma scoring_failed_second:
  assumes "i \<noteq> 0"
  shows "image_outcome scoring_failed_env i p = Scored (1 / 2)"
  using assms
  by (intro sample_scored[OF scoring_failed_runs sample_saved])
     (simp_all add: scoring_failed_env_def sample_env_def)

lemma scoring_failed_metrics:
  "image_latency scoring_failed_env i p = 500" "image_chars scoring_failed_env i p = 6"
  using scoring_failed_runs[of i p] by (simp_all add: image_latency_def image_chars_def average_ms_def)

theorem scoring_failure_counts_as_neither_witness:
  "successful_count (batch_loop scoring_failed_env 0 [''d/1.png'', ''d/2.png''] (initial_state []))
     + failed_count (batch_loop scoring_failed_env 0 [''d/1.png'', ''d/2.png''] (initial_state []))
     < int (length [''d/1.png'', ''d/2.png''])
   \<and> stdout_of (main scoring_failed_env) =
       [PER_IMAGE_RESULT (sample_record ''1.png'' 0),
        PER_IMAGE_RESULT (sample_record ''2.png'' (1 / 2)),
        SUMMARY
          \<lparr>s_total_images = 2, s_successful = 1, s_failed = 0, s_success_rate = 50,
           s_total_inference_time = 1000, s_avg_inference_time = 500, s_min_time = 500,
           s_max_time = 500, s_avg_fps = Fin 2, s_total_fps = Fin 1\<rparr>]"
proof -
  let ?ps = "[] @ ''d/1.png'' # [''d/2.png'']"
  have nz: "(256::int) \<noteq> 0" by simp
  have i0: "0 = length ([]::string list)" by simp
  note th = scoring_failure_counts_as_neither[where env = scoring_failed_env and i = 0
      and p = "''d/1.png''" and before = "[]" and rest = "[''d/2.png'']" and w = "[]" and st = "initial_state []" and N = 2,
      OF scoring_failed_runs sample_saved scoring_failed_first nz i0]
  have lt: "successful_count (batch_loop scoring_failed_env 0 [''d/1.png'', ''d/2.png''] (initial_state []))
     + failed_count (batch_loop scoring_failed_env 0 [''d/1.png'', ''d/2.png''] (initial_state []))
     < int (length [''d/1.png'', ''d/2.png''])"
    using th[unfolded Let_def append_Nil] by blast
  have o1: "image_outcome scoring_failed_env 0 ''d/1.png'' = ScoringFailed"
    by (rule image_outcome_ScoringFailed(1)[OF scoring_failed_runs sample_saved scoring_failed_first nz])
  have lines: "batch_lines scoring_failed_env ?ps =
       [PER_IMAGE_RESULT (sample_record ''1.png'' 0),
        PER_IMAGE_RESULT (sample_record ''2.png'' (1 / 2))]"
    by (simp add: batch_lines_def image_lines_def o1 scoring_failed_second image_record_def
          scoring_failed_metrics sample_record_def image_fps_def image_chars_per_second_def
          filename_eval)
  have lat: "completed_latencies scoring_failed_env ?ps = [500, 500]"
    by (simp add: completed_latencies_def o1 scoring_failed_second scoring_failed_metrics)
  have succ: "count_where counted_successful scoring_failed_env ?ps = 1"
    by (simp add: count_where_def o1 scoring_failed_second)
  have fail: "count_where counted_failed scoring_failed_env ?ps = 0"
    by (simp add: count_where_def o1 scoring_failed_second)
  have a: "2 \<le> length (env_argv scoring_failed_env)"
    by (simp add: scoring_failed_env_def sample_env_def)
  have c: "collectImagePaths (env_fs scoring_failed_env) (env_argv scoring_failed_env) = (?ps, [])"
    using scoring_failed_paths by simp
  have ne: "completed_latencies scoring_failed_env ?ps \<noteq> []" using lat by simp
  have "stdout_of (main scoring_failed_env) =
       [PER_IMAGE_RESULT (sample_record ''1.png'' 0),
        PER_IMAGE_RESULT (sample_record ''2.png'' (1 / 2)),
        SUMMARY
          \<lparr>s_total_images = 2, s_successful = 1, s_failed = 0, s_success_rate = 50,
           s_total_inference_time = 1000, s_avg_inference_time = 500, s_min_time = 500,
           s_max_time = 500, s_avg_fps = Fin 2, s_total_fps = Fin 1\<rparr>]"
    unfolding main_summary[OF a c ne] lines lat succ fail by (simp add: ieee_div_def)
  with lt show ?thesis by blast
qed

subsection \<open>A scorer output without the marker\<close>

lemma marker_missing_runs:
  "runs_of marker_missing_env i p = Inr ([500, 500, 500], [sample_output], 6)"
  by (simp add: runs_of_def marker_missing_env_def sample_env_def run_loop_eval sample_count)

lemma marker_missing_paths:
  "collectImagePaths (env_fs marker_missing_env) (env_argv marker_missing_env) = ([''d/1.png''], [])"
  unfolding marker_missing_env_def sample_paths by (simp add: string_eval)

lemma marker_missing_scorer: "scorer_result marker_missing_env i p = (True, ''no labels'', [])"
  by (simp add: scorer_result_def marker_missing_env_def sample_env_def ExecuteCommand_def)

lemma image_outcome_MarkerMissing:
  assumes "runs_of env i p = Inr (run_times, final_outputs, n)"
    and "save_outputs final_outputs = None"
    and "scorer_result env i p = (True, result_str, popen_cerr)"
    and "find_str prefix_marker result_str = None"
  shows "image_outcome env i p = MarkerMissing"
  using assms by (simp add: image_outcome_def)

lemma marker_missing_outcome: "image_outcome marker_missing_env i p = MarkerMissing"
  by (rule image_outcome_MarkerMissing[OF marker_missing_runs sample_saved marker_missing_scorer])
     (simp add: prefix_marker_def)

text \<open>
  C1, at an input where the code departs from it. One image: its three runs succeed,
  its outputs are saved, the scorer exits with status 0 and prints no
  \<^verbatim>\<open>SINGLE_ACC: \<close> marker. The run prints the summary, with the image counted as
  successful, and no \<^verbatim>\<open>PER_IMAGE_RESULT\<close> record.
\<close>

theorem missing_marker_emits_no_record:
  "runs_of marker_missing_env 0 ''d/1.png'' = Inr ([500, 500, 500], [sample_output], 6)
   \<and> scorer_result marker_missing_env 0 ''d/1.png'' = (True, ''no labels'', [])
   \<and> find_str prefix_marker ''no labels'' = None
   \<and> stdout_of (main marker_missing_env) =
       [SUMMARY
          \<lparr>s_total_images = 1, s_successful = 1, s_failed = 0, s_success_rate = 100,
           s_total_inference_time = 500, s_avg_inference_time = 500, s_min_time = 500,
           s_max_time = 500, s_avg_fps = Fin 2, s_total_fps = Fin 2\<rparr>]"
proof -
  let ?ps = "[''d/1.png'']"
  have lat1: "image_latency marker_missing_env i p = 500" for i p
    using marker_missing_runs[of i p] by (simp add: image_latency_def average_ms_def)
  have lines: "batch_lines marker_missing_env ?ps = []"
    by (simp add: batch_lines_def image_lines_def marker_missing_outcome)
  have lat: "completed_latencies marker_missing_env ?ps = [500]"
    by (simp add: completed_latencies_def marker_missing_outcome lat1)
  have succ: "count_where counted_successful marker_missing_env ?ps = 1"
    by (simp add: count_where_def marker_missing_outcome)
  have fail: "count_where counted_failed marker_missing_env ?ps = 0"
    by (simp add: count_where_def marker_missing_outcome)
  have a: "2 \<le> length (env_argv marker_missing_env)"
    by (simp add: marker_missing_env_def sample_env_def)
  have ne: "completed_latencies marker_missing_env ?ps \<noteq> []" using lat by simp
  have "stdout_of (main marker_missing_env) =
       [SUMMARY
          \<lparr>s_total_images = 1, s_successful = 1, s_failed = 0, s_success_rate = 100,
           s_total_inference_time = 500, s_avg_inference_time = 500, s_min_time = 500,
           s_max_time = 500, s_avg_fps = Fin 2, s_total_fps = Fin 2\<rparr>]"
    unfolding main_summary[OF a marker_missing_paths ne] lines lat succ fail
    by (simp add: ieee_div_def)
  moreover have "find_str prefix_marker ''no labels'' = None" by (simp add: prefix_marker_def)
  ultimately show ?thesis using marker_missing_runs marker_missing_scorer by blast
qed

lemma varied_runs:
  "runs_of varied_env 0 p = Inr ([90, 100, 110], [sample_output], 6)"
  by (simp add: runs_of_def varied_env_def sample_env_def run_loop_eval sample_count)

theorem three_runs_first_result_mean_witness:
  "runs_of varied_env 0 ''d/1.png'' = Inr ([90, 100, 110], [sample_output], 6)
   \<and> inference_times (process_image varied_env 0 ''d/1.png'' (initial_state [])) = [100]"
proof -
  from three_runs_first_result_mean[OF varied_runs, of "''d/1.png''" _ "initial_state []"]
  have "inference_times (process_image varied_env 0 ''d/1.png'' (initial_state []))
          = inference_times (initial_state []) @ [average_ms [90, 100, 110]]"
    by blast
  then have "inference_times (process_image varied_env 0 ''d/1.png'' (initial_state [])) = [100]"
    by (simp add: initial_state_def average_ms_def)
  with varied_runs show ?thesis by blast
qed

subsection \<open>Instances on the sample runs\<close>


lemma failing_count: "count_output (print_text failing_output) 0 = 6"
  using sample_count by (simp add: failing_output_def sample_output_def)

lemma failing_saved: "save_outputs [failing_output] = Some ''cannot write''"
  by (simp add: failing_output_def)

lemma save_failure_paths:
  "collectImagePaths (env_fs save_failure_env) (env_argv save_failure_env)
     = ([''d/1.png'', ''d/2.png''], [])"
  unfolding save_failure_env_def sample_paths by (simp add: string_eval)

lemma save_failure_first:
  "runs_of save_failure_env 0 p = Inr ([100, 100, 100], [sample_output], 6)"
  by (simp add: runs_of_def save_failure_env_def sample_env_def run_loop_eval sample_count)

lemma save_failure_second:
  "runs_of save_failure_env (Suc 0) p = Inr ([900, 900, 900], [failing_output], 6)"
  by (simp add: runs_of_def save_failure_env_def sample_env_def run_loop_eval failing_count)

lemma save_failure_outcomes:
  "image_outcome save_failure_env 0 p = Scored (1 / 2)"
  "image_outcome save_failure_env (Suc 0) p = SavingRaised ''cannot write''"
  "image_latency save_failure_env 0 p = 100"
  "image_latency save_failure_env (Suc 0) p = 900"
  "image_chars save_failure_env 0 p = 6"
proof -
  show "image_outcome save_failure_env 0 p = Scored (1 / 2)"
    by (rule sample_scored[OF save_failure_first sample_saved])
       (simp_all add: save_failure_env_def sample_env_def)
  show "image_outcome save_failure_env (Suc 0) p = SavingRaised ''cannot write''"
    using runs_of_Inr(4)[OF save_failure_second, of p "''cannot write''"] failing_saved by simp
  show "image_latency save_failure_env 0 p = 100"
    using save_failure_first[of p] by (simp add: image_latency_def average_ms_def)
  show "image_latency save_failure_env (Suc 0) p = 900"
    using save_failure_second[of p] by (simp add: image_latency_def average_ms_def)
  show "image_chars save_failure_env 0 p = 6"
    using save_failure_first[of p] by (simp add: image_chars_def)
qed

lemma save_failure_facts:
  "batch_lines save_failure_env [''d/1.png'', ''d/2.png''] = [PER_IMAGE_RESULT fast_record]"
  "completed_latencies save_failure_env [''d/1.png'', ''d/2.png''] = [100, 900]"
  "count_where counted_successful save_failure_env [''d/1.png'', ''d/2.png''] = 1"
  "count_where counted_failed save_failure_env [''d/1.png'', ''d/2.png''] = 1"
  by (simp_all add: batch_lines_def image_lines_def completed_latencies_def count_where_def
        save_failure_outcomes image_record_def image_fps_def image_chars_per_second_def
        fast_record_def filename_eval)

lemma save_failure_arguments: "2 \<le> length (env_argv save_failure_env)"
  by (simp add: save_failure_env_def sample_env_def)

text \<open>
  C3, as stated, fails in its last clause. Of two images the first is scored at 100 ms
  and the second, at 900 ms, fails when its output is saved: the run counts one
  successful and one failed image, and its summary reports the average 500 and the
  maximum 900, while the successful image alone gives 100 for both.
\<close>

theorem failed_image_enters_the_statistics:
  "image_outcome save_failure_env 1 ''d/2.png'' = SavingRaised ''cannot write''
   \<and> successful_latencies save_failure_env [''d/1.png'', ''d/2.png''] = [100]
   \<and> stdout_of (main save_failure_env) =
       [PER_IMAGE_RESULT fast_record,
        SUMMARY
          \<lparr>s_total_images = 2, s_successful = 1, s_failed = 1, s_success_rate = 50,
           s_total_inference_time = 1000, s_avg_inference_time = 500, s_min_time = 100,
           s_max_time = 900, s_avg_fps = Fin 2, s_total_fps = Fin 1\<rparr>]
   \<and> Max (set (successful_latencies save_failure_env [''d/1.png'', ''d/2.png''])) \<noteq> 900
   \<and> sum_list (successful_latencies save_failure_env [''d/1.png'', ''d/2.png''])
       / real (length (successful_latencies save_failure_env [''d/1.png'', ''d/2.png''])) \<noteq> 500"
proof -
  let ?ps = "[''d/1.png'', ''d/2.png'']"
  have o: "image_outcome save_failure_env 1 ''d/2.png'' = SavingRaised ''cannot write''"
    using save_failure_outcomes(2)[of "''d/2.png''"] by simp
  have s: "successful_latencies save_failure_env ?ps = [100]"
    by (simp add: successful_latencies_def save_failure_outcomes)
  have ne: "completed_latencies save_failure_env ?ps \<noteq> []"
    by (simp add: save_failure_facts)
  have out: "stdout_of (main save_failure_env) =
       [PER_IMAGE_RESULT fast_record,
        SUMMARY
          \<lparr>s_total_images = 2, s_successful = 1, s_failed = 1, s_success_rate = 50,
           s_total_inference_time = 1000, s_avg_inference_time = 500, s_min_time = 100,
           s_max_time = 900, s_avg_fps = Fin 2, s_total_fps = Fin 1\<rparr>]"
    unfolding main_summary[OF save_failure_arguments save_failure_paths ne] save_failure_facts(1-4)
    by (simp add: ieee_div_def)
  show ?thesis unfolding s using o out by simp
qed

theorem summary_statistics_witness:
  "\<exists>S. stdout_of (main save_failure_env)
          = batch_lines save_failure_env [''d/1.png'', ''d/2.png''] @ [SUMMARY S]
       \<and> s_total_inference_time S = 1000 \<and> s_avg_inference_time S = 500
       \<and> s_min_time S = 100 \<and> s_max_time S = 900
       \<and> s_avg_fps S = Fin 2 \<and> s_successful S = 1 \<and> s_total_fps S = Fin 1"
proof -
  let ?ps = "[''d/1.png'', ''d/2.png'']"
  note lat = save_failure_facts(2)
  note succ = save_failure_facts(3)
  have ne: "completed_latencies save_failure_env ?ps \<noteq> []" using lat by simp
  from summary_statistics[OF save_failure_arguments save_failure_paths ne] obtain S where
    S: "stdout_of (main save_failure_env) = batch_lines save_failure_env ?ps @ [SUMMARY S]"
       "s_total_inference_time S = sum_list (completed_latencies save_failure_env ?ps)"
       "s_avg_inference_time S
          = sum_list (completed_latencies save_failure_env ?ps)
              / real (length (completed_latencies save_failure_env ?ps))"
       "s_min_time S = Min (set (completed_latencies save_failure_env ?ps))"
       "s_max_time S = Max (set (completed_latencies save_failure_env ?ps))"
       "s_avg_fps S = ieee_div 1000 (s_avg_inference_time S)"
       "s_successful S = count_where counted_successful save_failure_env ?ps"
       "s_total_fps S
          = ieee_div (real_of_int (s_successful S) * 1000)
              (sum_list (completed_latencies save_failure_env ?ps))"
    by blast
  have "s_total_inference_time S = 1000" "s_avg_inference_time S = 500"
    "s_min_time S = 100" "s_max_time S = 900" "s_successful S = 1"
    using S(2,3,4,5,7) by (simp_all add: lat succ)
  moreover from this have "s_avg_fps S = Fin 2" "s_total_fps S = Fin 1"
    using S(6,8) by (simp_all add: lat ieee_div_def)
  ultimately show ?thesis using S(1) by blast
qed






theorem exit_code_cases_witness:
  "exit_code (main no_arguments_env) = 1
   \<and> exit_code (main no_images_env) = 1
   \<and> exit_code (main isolation_env) = 1
   \<and> exit_code (main scoring_failed_env) = 0"
proof -
  have "exit_code (main no_arguments_env) = 1"
    using exit_code_cases[of no_arguments_env] by (simp add: no_arguments_env_def sample_env_def)
  moreover have "exit_code (main no_images_env) = 1"
    using exit_code_cases[of no_images_env]
    by (simp add: no_images_env_def sample_env_def collectImagePaths_def string_eval)
  moreover have "exit_code (main isolation_env) = 1"
  proof -
    have "image_outcome isolation_env (Suc (Suc 0)) ''d/3.png'' = InferenceRaised ''unreadable''"
      using image_outcome_InferenceRaised[of 1 isolation_env 2 "''d/3.png''" "''unreadable''"]
      by (simp add: isolation_env_def sample_env_def numeral_2_eq_2)
    moreover have "\<not> length (env_argv isolation_env) < 2"
      by (simp add: isolation_env_def sample_env_def)
    ultimately show ?thesis
      using exit_code_cases[of isolation_env] by (simp add: isolation_paths)
  qed
  moreover have "exit_code (main scoring_failed_env) = 0"
  proof -
    have "image_outcome scoring_failed_env 0 ''d/1.png'' = ScoringFailed"
      by (rule image_outcome_ScoringFailed(1)[OF scoring_failed_runs sample_saved scoring_failed_first])
         simp
    moreover have "\<not> length (env_argv scoring_failed_env) < 2"
      by (simp add: scoring_failed_env_def sample_env_def)
    ultimately show ?thesis
      using exit_code_cases[of scoring_failed_env]
      by (simp add: scoring_failed_paths scoring_failed_second)
  qed
  ultimately show ?thesis by blast
qed

end
